theory Spec2Isabelle
  imports Complex_Main "HOL-Library.Monad_Syntax"
begin

section \<open>Data model of the Slip engine\<close>

text \<open>
  A JavaScript number is a real or NaN. The engine only adds, subtracts, halves and
  compares pixel offsets and time stamps; rounding and the infinities are left out.
  NaN is kept for what the engine reads from the page: a child that is an element but has
  no \<open>offsetTop\<close> (an SVG element, say) gives undefined there, and a margin that is not a
  length gives NaN from \<open>parseInt\<close>. Undefined behaves as NaN in the sums and comparisons of
  the code, so both are the value \<open>NaN\<close>. Pointer coordinates, time stamps and scroll
  offsets are always numbers, and are reals.
  DOM nodes, timers and state objects are referred to by natural numbers; two references
  are the same object exactly when the numbers agree.
\<close>

type_synonym node_ref = nat
type_synonym timer_ref = nat

datatype jsnum = Number real | NaN

text \<open>\<open>+\<close>, \<open>-\<close>, \<open>/2\<close> and \<open>Math.max\<close>: NaN as soon as an operand is NaN.\<close>

fun js_add :: "jsnum \<Rightarrow> jsnum \<Rightarrow> jsnum" where
  "js_add (Number a) (Number b) = Number (a + b)"
| "js_add a b = NaN"

fun js_sub :: "jsnum \<Rightarrow> jsnum \<Rightarrow> jsnum" where
  "js_sub (Number a) (Number b) = Number (a - b)"
| "js_sub a b = NaN"

fun js_half :: "jsnum \<Rightarrow> jsnum" where
  "js_half (Number a) = Number (a / 2)"
| "js_half a = NaN"

fun js_max :: "jsnum \<Rightarrow> jsnum \<Rightarrow> jsnum" where
  "js_max (Number a) (Number b) = Number (max a b)"
| "js_max a b = NaN"

text \<open>\<open><\<close> and \<open>>\<close>: false as soon as an operand is NaN.\<close>

fun js_lt :: "jsnum \<Rightarrow> jsnum \<Rightarrow> bool" where
  "js_lt (Number a) (Number b) = (a < b)"
| "js_lt a b = False"

fun js_gt :: "jsnum \<Rightarrow> jsnum \<Rightarrow> bool" where
  "js_gt (Number a) (Number b) = (a > b)"
| "js_gt a b = False"

text \<open>The object \<open>{value, original}\<close> returned by \<open>getTransform\<close>.\<close>

record transform =
  tf_value :: string
  tf_original :: string

text \<open>
  A child of the container with the layout properties the engine reads: \<open>nodeType\<close>,
  \<open>offsetTop\<close>, \<open>offsetHeight\<close>, the computed margins after \<open>parseInt\<close>, and the
  result of \<open>getTransform(node)\<close>.
\<close>

record dom_node =
  ref :: node_ref
  nodeType :: nat
  offsetTop :: jsnum
  offsetHeight :: jsnum
  marginTop :: jsnum
  marginBottom :: jsnum
  getTransform :: transform

text \<open>A position sample \<open>{x, y, time}\<close>.\<close>

record position =
  p_x :: real
  p_y :: real
  p_time :: real

text \<open>The results of \<open>getTotalMovement\<close> and \<open>getAbsoluteMovement\<close>.\<close>

record movement =
  m_x :: real
  m_y :: real
  m_time :: real

record abs_movement =
  a_x :: real
  a_y :: real
  a_time :: real
  directionX :: string
  directionY :: string

text \<open>
  \<open>this.target\<close>, built by \<open>setTarget\<close>. \<open>scrollTop\<close> is the live
  \<open>scrollContainer.scrollTop\<close>; \<open>height\<close> is undefined until a state's entry function
  measures it.
\<close>

record target_rec =
  originalTarget :: node_ref
  node :: dom_node
  scrollTop :: real
  origScrollTop :: real
  origScrollHeight :: real
  baseTransform :: transform
  height :: "jsnum option"

text \<open>An entry of \<open>otherNodes\<close>, the snapshot of one sibling taken on entering reorder.\<close>

record sibling =
  o_node :: node_ref
  o_baseTransform :: transform
  pos :: jsnum

text \<open>The three constructors of \<open>Slip.prototype.states\<close>.\<close>

datatype state_ctor = Idle | Undecided | Reorder

text \<open>The \<open>detail\<close> object of the \<open>slip:reorder\<close> event.\<close>

record detail =
  spliceIndex :: int
  detailOriginalIndex :: nat
  insertBefore :: "node_ref option"

text \<open>What the engine does to the world outside itself, in the order it does it.\<close>

datatype effect =
    Dispatch node_ref string "detail option"
  | StyleSet node_ref string "string option"
  | ClassAdd node_ref string
  | ClassRemove node_ref string
  | AddTransitionEndListener node_ref
  | Focus node_ref
  | ContainerFocus
  | RequestAnimationFrame

datatype timer_callback = HoldTimer | MouseOutsideTimer | AnimateToZero target_rec

record timer =
  timer_id :: timer_ref
  callback :: timer_callback
  delay :: nat

text \<open>
  A state object. \<open>obj\<close> is its identity; \<open>init\<close> says which entry function built it and
  so which handlers it carries; \<open>ctor\<close> is the property \<open>setState\<close> writes when it commits
  the object. The remaining fields are the object's \<open>allowTextSelection\<close> flag and the
  variables its handlers close over.
\<close>

record state_rec =
  obj :: nat
  init :: state_ctor
  ctor :: "state_ctor option"
  allowTextSelection :: bool
  holdTimer :: "timer_ref option"
  otherNodes :: "sibling list"
  originalIndex :: nat
  mouseOutsideTimer :: "timer_ref option"

record options_rec =
  raised :: bool
  draggingClassName :: "string option"

text \<open>
  The Slip instance together with the part of the page it touches: the container's
  \<open>childNodes\<close>, the outcome \<open>dispatchEvent\<close> has for an event type on a node (False when a
  listener prevented the default), the pending timers, the next unused reference and the
  effects so far.
\<close>

record engine =
  options :: options_rec
  state :: "state_rec option"
  target :: "target_rec option"
  usingTouch :: bool
  mouseHandlersAttached :: bool
  startPosition :: "position option"
  latestPosition :: "position option"
  previousPosition :: "position option"
  canPreventScrolling :: bool
  childNodes :: "dom_node list"
  dispatchEvent :: "node_ref \<Rightarrow> string \<Rightarrow> bool"
  timers :: "timer list"
  fresh :: nat
  effects :: "effect list"

section \<open>Helpers of the embedding\<close>

definition emit :: "effect list \<Rightarrow> engine \<Rightarrow> engine" where
  "emit fx e = e\<lparr>effects := effects e @ fx\<rparr>"

definition setTimeout :: "timer_callback \<Rightarrow> nat \<Rightarrow> engine \<Rightarrow> timer_ref \<times> engine" where
  "setTimeout cb ms e =
     (fresh e,
      e\<lparr>timers := timers e @ [\<lparr>timer_id = fresh e, callback = cb, delay = ms\<rparr>],
        fresh := fresh e + 1\<rparr>)"

definition clearTimeout :: "timer_ref option \<Rightarrow> engine \<Rightarrow> engine" where
  "clearTimeout t e =
     (case t of
        None \<Rightarrow> e
      | Some i \<Rightarrow> e\<lparr>timers := filter (\<lambda>x. timer_id x \<noteq> i) (timers e)\<rparr>)"

text \<open>The object literal an entry function returns: a new object, not yet committed.\<close>

definition newStateObject :: "state_ctor \<Rightarrow> engine \<Rightarrow> state_rec \<times> engine" where
  "newStateObject k e =
     (\<lparr>obj = fresh e, init = k, ctor = None, allowTextSelection = False, holdTimer = None,
       otherNodes = [], originalIndex = 0, mouseOutsideTimer = None\<rparr>,
      e\<lparr>fresh := fresh e + 1\<rparr>)"

definition sameObject :: "state_rec option \<Rightarrow> state_rec option \<Rightarrow> bool" where
  "sameObject a b = (map_option obj a = map_option obj b)"

text \<open>The events dispatched so far, among the effects.\<close>

fun isDispatch :: "effect \<Rightarrow> bool" where
  "isDispatch (Dispatch n ty d) = True"
| "isDispatch f = False"

definition dispatches :: "engine \<Rightarrow> effect list" where
  "dispatches e = filter isDispatch (effects e)"

section \<open>The Reorder Index Calculator (\<open>reorder.onEnd\<close>, lines 325 to 348)\<close>

text \<open>
  The upward scan \<open>for (i=0; i < otherNodes.length; i++) if (otherNodes[i].pos > move.y) break\<close>,
  started at \<open>i\<close>; the value is \<open>i\<close> after the loop.
\<close>

function scanForward :: "sibling list \<Rightarrow> real \<Rightarrow> nat \<Rightarrow> nat" where
  "scanForward os y i =
     (if i < length os
      then (if js_gt (pos (os ! i)) (Number y) then i else scanForward os y (i + 1))
      else i)"
  by pat_completeness auto
termination
  by (relation "measure (\<lambda>(os, y, i). length os - i)") auto

text \<open>
  The downward scan \<open>for (i=otherNodes.length-1; i >= 0; i--) if (otherNodes[i].pos < move.y) break\<close>;
  \<open>i\<close> ends at \<open>-1\<close> when no sibling qualifies.
\<close>

function scanBackward :: "sibling list \<Rightarrow> real \<Rightarrow> int \<Rightarrow> int" where
  "scanBackward os y i =
     (if i \<ge> 0
      then (if js_lt (pos (os ! nat i)) (Number y) then i else scanBackward os y (i - 1))
      else i)"
  by pat_completeness auto
termination
  by (relation "measure (\<lambda>(os, y, i). nat (i + 1))") auto

declare scanForward.simps [simp del] scanBackward.simps [simp del]

definition spliceIndexOf :: "sibling list \<Rightarrow> real \<Rightarrow> int" where
  "spliceIndexOf os y =
     (if y < 0 then int (scanForward os y 0)
      else scanBackward os y (int (length os) - 1) + 1)"

text \<open>
  The payload of \<open>slip:reorder\<close>. \<open>otherNodes[spliceIndex]\<close> is undefined outside the
  array, and then \<open>insertBefore\<close> is null.
\<close>

definition reorderDetail :: "sibling list \<Rightarrow> nat \<Rightarrow> real \<Rightarrow> detail" where
  "reorderDetail os oi y =
     (let k = spliceIndexOf os y in
      \<lparr>spliceIndex = k,
       detailOriginalIndex = oi,
       insertBefore =
         (if 0 \<le> k \<and> k < int (length os) then Some (o_node (os ! nat k)) else None)\<rparr>)"

section \<open>Entering reorder: \<open>findIndex\<close> and the sibling snapshot\<close>

text \<open>\<open>findIndex(target, nodes)\<close>: the loop carries \<open>originalIndex\<close> and \<open>listCount\<close>.\<close>

fun findIndex_loop :: "target_rec \<Rightarrow> dom_node list \<Rightarrow> nat \<Rightarrow> nat \<Rightarrow> nat" where
  "findIndex_loop tg [] oi listCount = oi"
| "findIndex_loop tg (n # ns) oi listCount =
     (if nodeType n = 1
      then (if ref n = ref (node tg)
            then findIndex_loop tg ns ((listCount + 1) - 1) (listCount + 1)
            else findIndex_loop tg ns oi (listCount + 1))
      else findIndex_loop tg ns oi listCount)"

definition findIndex :: "target_rec \<Rightarrow> dom_node list \<Rightarrow> nat" where
  "findIndex tg nodes = findIndex_loop tg nodes 0 0"

text \<open>\<open>node.offsetHeight + Math.max(parseInt(marginTop), parseInt(marginBottom))\<close>.\<close>

definition measuredHeight :: "dom_node \<Rightarrow> jsnum" where
  "measuredHeight n = js_add (offsetHeight n) (js_max (marginTop n) (marginBottom n))"

text \<open>
  \<open>zero = node.offsetTop + this.target.height/2\<close>, the height being the one just measured.
\<close>

definition zeroPoint :: "dom_node \<Rightarrow> jsnum" where
  "zeroPoint nd = js_add (offsetTop nd) (js_half (measuredHeight nd))"

text \<open>\<open>pos: t + (t < zero ? nodes[i].offsetHeight : 0) - zero\<close> with \<open>t = nodes[i].offsetTop\<close>.\<close>

definition siblingPos :: "jsnum \<Rightarrow> dom_node \<Rightarrow> jsnum" where
  "siblingPos zero n =
     (let t = offsetTop n in
      js_sub (js_add t (if js_lt t zero then offsetHeight n else Number 0)) zero)"

text \<open>
  The loop of \<open>reorderStateInit\<close> over \<open>nodes\<close> from child index \<open>i\<close>: the entries pushed
  to \<open>otherNodes\<close> and the style writes, in order.
\<close>

fun collectOtherNodes ::
  "dom_node \<Rightarrow> nat \<Rightarrow> jsnum \<Rightarrow> dom_node list \<Rightarrow> nat \<Rightarrow> sibling list \<times> effect list" where
  "collectOtherNodes nd oi zero [] i = ([], [])"
| "collectOtherNodes nd oi zero (n # ns) i =
     (if nodeType n \<noteq> 1 \<or> ref n = ref nd then collectOtherNodes nd oi zero ns (i + 1)
      else
        (let fx = StyleSet (ref n) ''transition'' (Some ''transform 0.2s ease-in-out'')
                  # (if i > oi then [StyleSet (ref n) ''willChange'' (Some ''transform'')]
                     else []);
             entry = \<lparr>o_node = ref n, o_baseTransform = getTransform n, pos = siblingPos zero n\<rparr>;
             (os, fs) = collectOtherNodes nd oi zero ns (i + 1)
         in (entry # os, fx @ fs)))"

section \<open>The state machine\<close>

text \<open>
  A function that can throw returns an option: \<open>None\<close> is an uncaught exception leaving the
  handler. It is a TypeError (a property read on null or undefined) everywhere but in the
  callback of \<open>animateToZero\<close>, where \<open>classList.remove\<close> refuses an empty class name.
\<close>

definition removeMouseHandlers :: "engine \<Rightarrow> engine" where
  "removeMouseHandlers e =
     (if mouseHandlersAttached e then e\<lparr>mouseHandlersAttached := False\<rparr> else e)"

text \<open>
  \<open>dispatch(targetNode, eventName, detail)\<close>: fires \<open>'slip:' + eventName\<close> and returns what
  \<open>dispatchEvent\<close> returns.
\<close>

definition dispatch :: "node_ref \<Rightarrow> string \<Rightarrow> detail option \<Rightarrow> engine \<Rightarrow> bool \<times> engine" where
  "dispatch targetNode eventName d e =
     (dispatchEvent e targetNode (''slip:'' @ eventName),
      emit [Dispatch targetNode (''slip:'' @ eventName) d] e)"

text \<open>
  \<open>getTotalMovement\<close>. With no target it returns undefined, and every caller modelled here
  reads a property of the result at once; a null position sample throws inside. Both are
  the value \<open>None\<close>.
\<close>

definition getTotalMovement :: "engine \<Rightarrow> movement option" where
  "getTotalMovement e =
     (case target e of
        None \<Rightarrow> None
      | Some t \<Rightarrow>
          (case (latestPosition e, startPosition e) of
             (Some l, Some s) \<Rightarrow>
               (let scrollOffset = scrollTop t - origScrollTop t in
                Some \<lparr>m_x = p_x l - p_x s,
                      m_y = p_y l - p_y s + scrollOffset,
                      m_time = p_time l - p_time s\<rparr>)
           | _ \<Rightarrow> None))"

definition getAbsoluteMovement :: "engine \<Rightarrow> abs_movement option" where
  "getAbsoluteMovement e =
     do {
       move \<leftarrow> getTotalMovement e;
       Some \<lparr>a_x = \<bar>m_x move\<bar>,
             a_y = \<bar>m_y move\<bar>,
             a_time = m_time move,
             directionX = (if m_x move < 0 then ''left'' else ''right''),
             directionY = (if m_y move < 0 then ''up'' else ''down'')\<rparr>
     }"

text \<open>
  \<open>animateToZero(callback, target)\<close> as \<open>reorder.leaveState\<close> calls it: the transform is
  reset now, the rest runs from a 100ms timer.
\<close>

definition animateToZero :: "target_rec \<Rightarrow> engine \<Rightarrow> engine" where
  "animateToZero tg e =
     snd (setTimeout (AnimateToZero tg) 100
            (emit [StyleSet (ref (node tg)) ''transform''
                     (Some (''translate(0,0) '' @ tf_value (baseTransform tg)))] e))"

text \<open>The \<open>leaveState\<close> handler of a state object; idle has none.\<close>

definition leaveState :: "state_rec \<Rightarrow> engine \<Rightarrow> engine option" where
  "leaveState s e =
     (case init s of
        Idle \<Rightarrow> Some e
      | Undecided \<Rightarrow> Some (clearTimeout (holdTimer s) e)
      | Reorder \<Rightarrow>
          (let e1 = (case mouseOutsideTimer s of
                       Some i \<Rightarrow> clearTimeout (Some i) e
                     | None \<Rightarrow> e);
               e2 = emit [ContainerFocus] e1
           in case target e2 of
                None \<Rightarrow> None
              | Some tg \<Rightarrow>
                  (let e3 = emit [StyleSet (ref (node tg)) ''userSelect'' (Some [])] e2;
                       e4 = animateToZero tg e3
                   in Some (emit (concat (map (\<lambda>sn.
                              [StyleSet (o_node sn) ''transform''
                                 (Some (tf_original (o_baseTransform sn))),
                               StyleSet (o_node sn) ''willChange'' None,
                               StyleSet (o_node sn) ''transition'' (Some [])])
                            (otherNodes s))) e4))))"

text \<open>
  \<open>setState\<close> for a given entry function. The entry function of undecided calls
  \<open>setState(reorder)\<close>, and no other entry function calls \<open>setState\<close>, so the recursion of
  the source is two levels deep: \<open>setStateWith\<close> is used once with the entry function of
  reorder, inside the one of undecided, and once for \<open>setState\<close> itself.
\<close>

definition commitState ::
  "(engine \<Rightarrow> (state_rec \<times> engine) option) \<Rightarrow> state_ctor \<Rightarrow> engine \<Rightarrow> engine option" where
  "commitState stateInit newStateCtor e =
     (let prevState = state e in
      do {
        (nextState, e') \<leftarrow> stateInit e;
        if sameObject (state e') prevState
        then Some (e'\<lparr>state := Some (nextState\<lparr>ctor := Some newStateCtor\<rparr>)\<rparr>)
        else Some e'
      })"

text \<open>\<open>this.state && this.state.ctor === newStateCtor\<close>: the call returns at once.\<close>

definition alreadyIn :: "state_ctor \<Rightarrow> engine \<Rightarrow> bool" where
  "alreadyIn newStateCtor e =
     (case state e of None \<Rightarrow> False | Some s \<Rightarrow> ctor s = Some newStateCtor)"

text \<open>\<open>if (this.state.leaveState) this.state.leaveState.call(this)\<close>, when there is a state.\<close>

definition leavePrevious :: "engine \<Rightarrow> engine option" where
  "leavePrevious e = (case state e of None \<Rightarrow> Some e | Some s \<Rightarrow> leaveState s e)"

definition setStateWith ::
  "(engine \<Rightarrow> (state_rec \<times> engine) option) \<Rightarrow> state_ctor \<Rightarrow> engine \<Rightarrow> engine option" where
  "setStateWith stateInit newStateCtor e =
     (if alreadyIn newStateCtor e then Some e
      else do { e1 \<leftarrow> leavePrevious e; commitState stateInit newStateCtor e1 })"

definition idleStateInit :: "engine \<Rightarrow> (state_rec \<times> engine) option" where
  "idleStateInit e =
     (let e1 = removeMouseHandlers e;
          e2 = (case target e1 of
                  Some tg \<Rightarrow> (emit [StyleSet (ref (node tg)) ''willChange'' (Some [])] e1)
                               \<lparr>target := None\<rparr>
                | None \<Rightarrow> e1);
          e3 = e2\<lparr>usingTouch := False\<rparr>;
          (s, e4) = newStateObject Idle e3
      in Some (s\<lparr>allowTextSelection := True\<rparr>, e4))"

text \<open>
  \<open>reorder.onMove\<close> only asks for an animation frame and returns false; what the frame
  callback draws is not part of this model.
\<close>

definition reorder_onMove :: "engine \<Rightarrow> (bool option \<times> engine) option" where
  "reorder_onMove e = Some (Some False, emit [RequestAnimationFrame] e)"

definition reorderStateInit :: "engine \<Rightarrow> (state_rec \<times> engine) option" where
  "reorderStateInit e =
     (case target e of
        None \<Rightarrow> None
      | Some tg \<Rightarrow>
          (let nd = node tg;
               e1 = emit [Focus (ref nd)] e;
               e2 = e1\<lparr>target := Some (tg\<lparr>height := Some (measuredHeight nd)\<rparr>)\<rparr>;
               nodes = childNodes e2;
               oi = findIndex tg nodes;
               zero = zeroPoint nd;
               (os, fx) = collectOtherNodes nd oi zero nodes 0;
               e3 = emit fx e2;
               e4 = emit [ClassAdd (ref nd) ''slip-dragging''] e3;
               e5 = (case draggingClassName (options e4) of
                       Some c \<Rightarrow> if c \<noteq> [] then emit [ClassAdd (ref nd) c] e4 else e4
                     | None \<Rightarrow> e4);
               e6 = (if raised (options e5) then emit [ClassAdd (ref nd) ''slip-shadow''] e5
                     else e5);
               e7 = emit [StyleSet (ref nd) ''zIndex'' (Some ''99999''),
                          StyleSet (ref nd) ''userSelect'' (Some ''none'')] e6
           in do {
                (r, e8) \<leftarrow> reorder_onMove e7;
                let (s, e9) = newStateObject Reorder e8;
                Some (s\<lparr>otherNodes := os, originalIndex := oi\<rparr>, e9)
              }))"

definition undecidedStateInit :: "engine \<Rightarrow> (state_rec \<times> engine) option" where
  "undecidedStateInit e =
     (case target e of
        None \<Rightarrow> None
      | Some tg \<Rightarrow>
          (let nd = node tg;
               e1 = e\<lparr>target := Some (tg\<lparr>height := Some (measuredHeight nd)\<rparr>)\<rparr>;
               e2 = emit [StyleSet (ref nd) ''willChange'' (Some ''transform''),
                          StyleSet (ref nd) ''transition'' (Some [])] e1;
               (waitAccepted, e3) = dispatch (originalTarget tg) ''beforewait'' None e2
           in if \<not> waitAccepted
              then
                (let (reorderAccepted, e4) = dispatch (originalTarget tg) ''beforereorder'' None e3
                 in if reorderAccepted
                    then do {
                           e5 \<leftarrow> setStateWith reorderStateInit Reorder e4;
                           Some (newStateObject Undecided e5)
                         }
                    else Some (newStateObject Undecided e4))
              else
                (let (tid, e4) = setTimeout HoldTimer 300 e3;
                     (s, e5) = newStateObject Undecided e4
                 in Some (s\<lparr>holdTimer := Some tid\<rparr>, e5))))"

definition stateInit :: "state_ctor \<Rightarrow> engine \<Rightarrow> (state_rec \<times> engine) option" where
  "stateInit c =
     (case c of
        Idle \<Rightarrow> idleStateInit
      | Undecided \<Rightarrow> undecidedStateInit
      | Reorder \<Rightarrow> reorderStateInit)"

definition setState :: "state_ctor \<Rightarrow> engine \<Rightarrow> engine option" where
  "setState newStateCtor e = setStateWith (stateInit newStateCtor) newStateCtor e"

text \<open>\<open>this.cancel = this.setState.bind(this, this.states.idle)\<close>.\<close>

definition cancel :: "engine \<Rightarrow> engine option" where
  "cancel e = setState Idle e"

definition startAtPosition :: "position \<Rightarrow> engine \<Rightarrow> engine option" where
  "startAtPosition p e =
     setState Undecided
       (e\<lparr>startPosition := Some p, previousPosition := Some p, latestPosition := Some p\<rparr>)"

section \<open>Handlers of the states\<close>

text \<open>
  A handler returns its JavaScript result (\<open>None\<close> for undefined, \<open>Some b\<close> for a boolean)
  with the engine it leaves.
\<close>

definition undecided_onMove :: "engine \<Rightarrow> (bool option \<times> engine) option" where
  "undecided_onMove e =
     do {
       move \<leftarrow> getAbsoluteMovement e;
       e1 \<leftarrow> (if a_y move > 20 then setState Idle e else Some e);
       Some (if a_x move > a_y move * 1.2 then Some False else None, e1)
     }"

definition undecided_onLeave :: "engine \<Rightarrow> engine option" where
  "undecided_onLeave e = setState Idle e"

definition undecided_onEnd :: "engine \<Rightarrow> (bool option \<times> engine) option" where
  "undecided_onEnd e =
     do {
       tg \<leftarrow> target e;
       let (allowDefault, e1) = dispatch (originalTarget tg) ''tap'' None e;
       e2 \<leftarrow> setState Idle e1;
       Some (Some allowDefault, e2)
     }"

definition reorder_onLeave :: "state_rec \<Rightarrow> engine \<Rightarrow> engine option" where
  "reorder_onLeave s e =
     (let e1 = (case mouseOutsideTimer s of
                  Some i \<Rightarrow> clearTimeout (Some i) e
                | None \<Rightarrow> e);
          (tid, e2) = setTimeout MouseOutsideTimer 700 e1
      in Some (e2\<lparr>state := map_option (\<lambda>c. if obj c = obj s
                                             then c\<lparr>mouseOutsideTimer := Some tid\<rparr> else c)
                              (state e2)\<rparr>))"

definition reorder_onEnd :: "state_rec \<Rightarrow> engine \<Rightarrow> (bool option \<times> engine) option" where
  "reorder_onEnd s e =
     do {
       move \<leftarrow> getTotalMovement e;
       tg \<leftarrow> target e;
       let (r, e1) = dispatch (ref (node tg)) ''reorder''
                       (Some (reorderDetail (otherNodes s) (originalIndex s) (m_y move))) e;
       e2 \<leftarrow> setState Idle e1;
       Some (Some False, e2)
     }"

definition onMove :: "state_rec \<Rightarrow> (engine \<Rightarrow> (bool option \<times> engine) option) option" where
  "onMove s =
     (case init s of
        Idle \<Rightarrow> None
      | Undecided \<Rightarrow> Some undecided_onMove
      | Reorder \<Rightarrow> Some reorder_onMove)"

definition onEnd :: "state_rec \<Rightarrow> (engine \<Rightarrow> (bool option \<times> engine) option) option" where
  "onEnd s =
     (case init s of
        Idle \<Rightarrow> None
      | Undecided \<Rightarrow> Some undecided_onEnd
      | Reorder \<Rightarrow> Some (reorder_onEnd s))"

text \<open>
  \<open>updatePosition(e, pos)\<close>. The event is used for \<open>e.preventDefault()\<close> only: the boolean
  of the result says whether it was called.
\<close>

definition updatePosition :: "position \<Rightarrow> engine \<Rightarrow> (bool \<times> engine) option" where
  "updatePosition p e =
     (if target e = None then Some (False, e)
      else
        (let e1 = e\<lparr>latestPosition := Some p\<rparr> in
         do {
           s \<leftarrow> state e1;
           (prevented, e2) \<leftarrow>
             (case onMove s of
                None \<Rightarrow> Some (False, e1)
              | Some handler \<Rightarrow> do { (r, e') \<leftarrow> handler e1; Some (r = Some False, e') });
           l \<leftarrow> latestPosition e2;
           q \<leftarrow> previousPosition e2;
           Some (prevented,
                 if p_time l - p_time q > 100
                 then e2\<lparr>previousPosition := latestPosition e2\<rparr> else e2)
         }))"

section \<open>Timers\<close>

text \<open>The function the hold timer of undecided runs after 300ms.\<close>

definition holdTimerCallback :: "engine \<Rightarrow> engine option" where
  "holdTimerCallback e =
     do {
       move \<leftarrow> getAbsoluteMovement e;
       if canPreventScrolling e \<and> a_x move < 15 \<and> a_y move < 25
       then do {
              tg \<leftarrow> target e;
              let (accepted, e1) = dispatch (originalTarget tg) ''beforereorder'' None e;
              if accepted then setState Reorder e1 else Some e1
            }
       else Some e
     }"

definition mouseOutsideCallback :: "timer_ref \<Rightarrow> engine \<Rightarrow> engine option" where
  "mouseOutsideCallback tid e =
     cancel (e\<lparr>state := map_option (\<lambda>c. if mouseOutsideTimer c = Some tid
                                         then c\<lparr>mouseOutsideTimer := None\<rparr> else c)
                          (state e)\<rparr>)"

definition animateToZeroCallback :: "target_rec \<Rightarrow> engine \<Rightarrow> engine option" where
  "animateToZeroCallback tg e =
     (let n = ref (node tg);
          className = (case draggingClassName (options e) of
                         Some c \<Rightarrow> c | None \<Rightarrow> ''undefined'')
      in if className = [] then None
         else Some (emit [StyleSet n ''transition'' (Some []),
                          StyleSet n ''transform'' (Some (tf_original (baseTransform tg))),
                          ClassRemove n className,
                          ClassRemove n ''slip-dragging'',
                          ClassRemove n ''slip-shadow'',
                          ClassAdd n ''slip-dropping'',
                          AddTransitionEndListener n,
                          StyleSet n ''zIndex'' (Some [])] e))"

text \<open>A pending timer fires: it leaves the table and its callback runs. A cleared timer does nothing.\<close>

definition fireTimer :: "timer_ref \<Rightarrow> engine \<Rightarrow> engine option" where
  "fireTimer tid e =
     (case find (\<lambda>x. timer_id x = tid) (timers e) of
        None \<Rightarrow> Some e
      | Some x \<Rightarrow>
          (let e1 = e\<lparr>timers := filter (\<lambda>x. timer_id x \<noteq> tid) (timers e)\<rparr> in
           case callback x of
             HoldTimer \<Rightarrow> holdTimerCallback e1
           | MouseOutsideTimer \<Rightarrow> mouseOutsideCallback tid e1
           | AnimateToZero tg \<Rightarrow> animateToZeroCallback tg e1))"

section \<open>Vocabulary of the properties\<close>

text \<open>Element children, and the snapshot entry the loop of \<open>reorderStateInit\<close> pushes for one.\<close>

definition isElement :: "dom_node \<Rightarrow> bool" where
  "isElement n = (nodeType n = 1)"

definition snapshotOf :: "jsnum \<Rightarrow> dom_node \<Rightarrow> sibling" where
  "snapshotOf zero n =
     \<lparr>o_node = ref n, o_baseTransform = getTransform n, pos = siblingPos zero n\<rparr>"

section \<open>A list of five items\<close>

text \<open>
  The scenario the properties are tried on: five element children of height \<open>H\<close>, stacked
  without margins, the pointer pressed on the third one. \<open>pressedEngine\<close> is the engine
  after \<open>setTarget\<close>, \<open>waitingEngine\<close> the same gesture once undecided has armed its hold
  timer, \<open>releasedEngine\<close> the engine with no gesture, \<open>vetoWait\<close> a page whose only
  veto is on \<open>slip:beforewait\<close>, and \<open>fourSiblings\<close> the snapshot for \<open>H = 40\<close>.
\<close>

definition noTransform :: transform where
  "noTransform = \<lparr>tf_value = [], tf_original = []\<rparr>"

definition listItem :: "nat \<Rightarrow> real \<Rightarrow> dom_node" where
  "listItem k H =
     \<lparr>ref = k, nodeType = 1, offsetTop = Number (real k * H), offsetHeight = Number H,
      marginTop = Number 0, marginBottom = Number 0, getTransform = noTransform\<rparr>"

definition fiveItems :: "real \<Rightarrow> dom_node list" where
  "fiveItems H = map (\<lambda>k. listItem k H) [0, 1, 2, 3, 4]"

definition idleObject :: state_rec where
  "idleObject =
     \<lparr>obj = 0, init = Idle, ctor = Some Idle, allowTextSelection = True, holdTimer = None,
      otherNodes = [], originalIndex = 0, mouseOutsideTimer = None\<rparr>"

definition pressedEngine :: "real \<Rightarrow> (node_ref \<Rightarrow> string \<Rightarrow> bool) \<Rightarrow> engine" where
  "pressedEngine H listeners =
     \<lparr>options = \<lparr>raised = True, draggingClassName = Some ''slipmove-dragging''\<rparr>,
      state = Some idleObject,
      target = Some \<lparr>originalTarget = 2, node = listItem 2 H, scrollTop = 0,
                     origScrollTop = 0, origScrollHeight = 5 * H,
                     baseTransform = noTransform, height = None\<rparr>,
      usingTouch = False,
      mouseHandlersAttached = True,
      startPosition = Some \<lparr>p_x = 0, p_y = 0, p_time = 0\<rparr>,
      latestPosition = Some \<lparr>p_x = 0, p_y = 0, p_time = 0\<rparr>,
      previousPosition = Some \<lparr>p_x = 0, p_y = 0, p_time = 0\<rparr>,
      canPreventScrolling = True,
      childNodes = fiveItems H,
      dispatchEvent = listeners,
      timers = [],
      fresh = 1,
      effects = []\<rparr>"

definition waitingEngine :: engine where
  "waitingEngine =
     (pressedEngine 40 (\<lambda>n ty. True))
       \<lparr>state := Some \<lparr>obj = 2, init = Undecided, ctor = Some Undecided,
                        allowTextSelection = False, holdTimer = Some 1, otherNodes = [],
                        originalIndex = 0, mouseOutsideTimer = None\<rparr>,
        target := Some \<lparr>originalTarget = 2, node = listItem 2 40, scrollTop = 0,
                         origScrollTop = 0, origScrollHeight = 5 * 40,
                         baseTransform = noTransform, height = Some (Number 40)\<rparr>,
        timers := [\<lparr>timer_id = 1, callback = HoldTimer, delay = 300\<rparr>],
        fresh := 3,
        effects := [StyleSet 2 ''willChange'' (Some ''transform''),
                    StyleSet 2 ''transition'' (Some []),
                    Dispatch 2 ''slip:beforewait'' None]\<rparr>"

definition releasedEngine :: engine where
  "releasedEngine =
     (pressedEngine 40 (\<lambda>n ty. True))\<lparr>target := None, mouseHandlersAttached := False\<rparr>"

definition vetoWait :: "node_ref \<Rightarrow> string \<Rightarrow> bool" where
  "vetoWait n ty = (ty \<noteq> ''slip:beforewait'')"

definition fourSiblings :: "sibling list" where
  "fourSiblings =
     [\<lparr>o_node = 0, o_baseTransform = noTransform, pos = Number (- 60)\<rparr>,
      \<lparr>o_node = 1, o_baseTransform = noTransform, pos = Number (- 20)\<rparr>,
      \<lparr>o_node = 3, o_baseTransform = noTransform, pos = Number 20\<rparr>,
      \<lparr>o_node = 4, o_baseTransform = noTransform, pos = Number 60\<rparr>]"

text \<open>
  The same gesture on a list of two children, the first an element without \<open>offsetTop\<close>
  and \<open>offsetHeight\<close>.
\<close>

definition svgChild :: dom_node where
  "svgChild =
     \<lparr>ref = 0, nodeType = 1, offsetTop = NaN, offsetHeight = NaN,
      marginTop = Number 0, marginBottom = Number 0, getTransform = noTransform\<rparr>"

definition svgEngine :: engine where
  "svgEngine = (pressedEngine 40 (\<lambda>n ty. True))\<lparr>childNodes := [svgChild, listItem 2 40]\<rparr>"

section \<open>Comparisons of JavaScript numbers\<close>

lemma js_gt_not_lt: "js_gt a (Number y) \<Longrightarrow> \<not> js_lt a (Number y)"
  by (cases a) auto

lemma js_gt_mono: "js_gt a (Number y2) \<Longrightarrow> y1 \<le> y2 \<Longrightarrow> js_gt a (Number y1)"
  by (cases a) auto

lemma js_lt_mono: "js_lt a (Number y1) \<Longrightarrow> y1 \<le> y2 \<Longrightarrow> js_lt a (Number y2)"
  by (cases a) auto

lemma js_not_gt_lt:
  "\<not> js_gt a (Number y1) \<Longrightarrow> a \<noteq> NaN \<Longrightarrow> y1 < y2 \<Longrightarrow> js_lt a (Number y2)"
  by (cases a) auto

section \<open>Properties of the Reorder Index Calculator\<close>

lemma scanForward_bounds:
  "i \<le> length os \<Longrightarrow> i \<le> scanForward os y i \<and> scanForward os y i \<le> length os"
proof (induction os y i rule: scanForward.induct)
  case (1 os y i)
  then show ?case by (subst (1 2) scanForward.simps) auto
qed

lemma scanForward_skipped:
  "i \<le> j \<Longrightarrow> j < scanForward os y i \<Longrightarrow> \<not> js_gt (pos (os ! j)) (Number y)"
proof (induction os y i rule: scanForward.induct)
  case (1 os y i)
  show ?case
  proof (cases "i < length os \<and> \<not> js_gt (pos (os ! i)) (Number y)")
    case True
    then have eq: "scanForward os y i = scanForward os y (i + 1)"
      by (subst scanForward.simps) simp
    show ?thesis
    proof (cases "j = i")
      case True
      with \<open>i < length os \<and> \<not> js_gt (pos (os ! i)) (Number y)\<close> show ?thesis by simp
    next
      case False
      with "1.prems" eq True "1.IH" show ?thesis by auto
    qed
  next
    case False
    then have "scanForward os y i = i"
      by (subst scanForward.simps) auto
    with "1.prems" show ?thesis by simp
  qed
qed

lemma scanForward_hit:
  "scanForward os y i < length os \<Longrightarrow> js_gt (pos (os ! scanForward os y i)) (Number y)"
proof (induction os y i rule: scanForward.induct)
  case (1 os y i)
  show ?case
  proof (cases "i < length os \<and> \<not> js_gt (pos (os ! i)) (Number y)")
    case True
    then have eq: "scanForward os y i = scanForward os y (i + 1)"
      by (subst scanForward.simps) simp
    with "1.prems" "1.IH" True show ?thesis by auto
  next
    case False
    then have "scanForward os y i = i"
      by (subst scanForward.simps) auto
    with "1.prems" False show ?thesis by auto
  qed
qed

lemma scanBackward_bounds:
  "- 1 \<le> i \<Longrightarrow> - 1 \<le> scanBackward os y i \<and> scanBackward os y i \<le> i"
proof (induction os y i rule: scanBackward.induct)
  case (1 os y i)
  then show ?case by (subst (1 2) scanBackward.simps) auto
qed

lemma scanBackward_skipped:
  "scanBackward os y i < j \<Longrightarrow> j \<le> i \<Longrightarrow> \<not> js_lt (pos (os ! nat j)) (Number y)"
proof (induction os y i rule: scanBackward.induct)
  case (1 os y i)
  show ?case
  proof (cases "i \<ge> 0 \<and> \<not> js_lt (pos (os ! nat i)) (Number y)")
    case True
    then have eq: "scanBackward os y i = scanBackward os y (i - 1)"
      by (subst scanBackward.simps) simp
    show ?thesis
    proof (cases "j = i")
      case True
      with \<open>i \<ge> 0 \<and> \<not> js_lt (pos (os ! nat i)) (Number y)\<close> show ?thesis by simp
    next
      case False
      with "1.prems" eq True "1.IH" show ?thesis by auto
    qed
  next
    case False
    then have "scanBackward os y i = i"
      by (subst scanBackward.simps) auto
    with "1.prems" show ?thesis by simp
  qed
qed

lemma scanBackward_hit:
  "0 \<le> scanBackward os y i \<Longrightarrow> js_lt (pos (os ! nat (scanBackward os y i))) (Number y)"
proof (induction os y i rule: scanBackward.induct)
  case (1 os y i)
  show ?case
  proof (cases "i \<ge> 0 \<and> \<not> js_lt (pos (os ! nat i)) (Number y)")
    case True
    then have eq: "scanBackward os y i = scanBackward os y (i - 1)"
      by (subst scanBackward.simps) simp
    with "1.prems" "1.IH" True show ?thesis by auto
  next
    case False
    then have "scanBackward os y i = i"
      by (subst scanBackward.simps) auto
    with "1.prems" False show ?thesis by auto
  qed
qed

text \<open>Where the two scans stop on a list split into a part that qualifies and one that does not.\<close>

lemma scanBackward_split:
  assumes k: "k \<le> length os"
    and low: "\<forall>i < k. js_lt (pos (os ! i)) (Number y)"
    and high: "\<forall>i. k \<le> i \<and> i < length os \<longrightarrow> \<not> js_lt (pos (os ! i)) (Number y)"
  shows "scanBackward os y (int (length os) - 1) + 1 = int k"
proof -
  let ?n = "int (length os)"
  let ?r = "scanBackward os y (?n - 1)"
  have bd: "- 1 \<le> ?r \<and> ?r \<le> ?n - 1" using scanBackward_bounds [of "?n - 1" os y] by simp
  have up: "?r < int k"
  proof (rule ccontr)
    assume "\<not> ?r < int k"
    then have ge: "int k \<le> ?r" by simp
    then have "js_lt (pos (os ! nat ?r)) (Number y)" using scanBackward_hit [of os y "?n - 1"] by simp
    moreover have "k \<le> nat ?r \<and> nat ?r < length os" using ge bd by auto
    ultimately show False using high by blast
  qed
  have "\<not> ?r < int k - 1"
  proof
    assume lt: "?r < int k - 1"
    then have k0: "0 < k" using bd by auto
    have "\<not> js_lt (pos (os ! nat (int k - 1))) (Number y)"
      using scanBackward_skipped [of os y "?n - 1" "int k - 1"] lt k by simp
    moreover have "nat (int k - 1) < k" using k0 by simp
    ultimately show False using low by blast
  qed
  with up show ?thesis by simp
qed

lemma scanForward_split:
  assumes k: "k \<le> length os"
    and low: "\<forall>i < k. \<not> js_gt (pos (os ! i)) (Number y)"
    and high: "k < length os \<longrightarrow> js_gt (pos (os ! k)) (Number y)"
  shows "scanForward os y 0 = k"
proof -
  let ?r = "scanForward os y 0"
  have le: "?r \<le> length os" using scanForward_bounds [of 0 os y] by simp
  have "\<not> ?r < k"
  proof
    assume "?r < k"
    then have "?r < length os" "\<not> js_gt (pos (os ! ?r)) (Number y)" using k low by auto
    then show False using scanForward_hit [of os y 0] by simp
  qed
  moreover have "\<not> k < ?r"
  proof
    assume lt: "k < ?r"
    then have "\<not> js_gt (pos (os ! k)) (Number y)" using scanForward_skipped [of 0 k os y] by simp
    moreover have "k < length os" using lt le by simp
    ultimately show False using high by simp
  qed
  ultimately show ?thesis by simp
qed

section \<open>Properties of the snapshot\<close>

lemma collectOtherNodes_fst:
  "fst (collectOtherNodes nd oi zero ns i) =
     map (snapshotOf zero) (filter (\<lambda>n. isElement n \<and> ref n \<noteq> ref nd) ns)"
  by (induction ns arbitrary: i)
     (simp_all add: snapshotOf_def isElement_def Let_def split_def)

lemma findIndex_loop_no_target:
  "\<forall>n \<in> set ns. ref n \<noteq> ref (node tg) \<Longrightarrow> findIndex_loop tg ns oi lc = oi"
  by (induction ns arbitrary: lc) auto

lemma findIndex_loop_before:
  "\<forall>n \<in> set ns. ref n \<noteq> ref (node tg) \<Longrightarrow>
     findIndex_loop tg (ns @ rest) oi lc
       = findIndex_loop tg rest oi (lc + length (filter isElement ns))"
  by (induction ns arbitrary: lc) (auto simp: isElement_def)

lemma findIndex_target:
  assumes "\<forall>n \<in> set aboveNodes \<union> set belowNodes. ref n \<noteq> ref (node tg)"
    and "isElement (node tg)"
  shows "findIndex tg (aboveNodes @ node tg # belowNodes) = length (filter isElement aboveNodes)"
  using assms
  by (simp add: findIndex_def findIndex_loop_before findIndex_loop_no_target isElement_def)

lemma reorderStateInit_closure:
  assumes "target e = Some tg"
  shows "\<exists>s e1. reorderStateInit e = Some (s, e1)
           \<and> originalIndex s = findIndex tg (childNodes e)
           \<and> otherNodes s =
               map (snapshotOf (zeroPoint (node tg)))
                 (filter (\<lambda>n. isElement n \<and> ref n \<noteq> ref (node tg)) (childNodes e))"
proof -
  have "fst (collectOtherNodes (node tg) (findIndex tg (childNodes e))
          (zeroPoint (node tg)) (childNodes e) 0)
        = map (snapshotOf (zeroPoint (node tg)))
            (filter (\<lambda>n. isElement n \<and> ref n \<noteq> ref (node tg)) (childNodes e))"
    by (rule collectOtherNodes_fst)
  then show ?thesis
    using assms
    by (auto simp: reorderStateInit_def reorder_onMove_def newStateObject_def emit_def Let_def
             split: prod.splits option.splits)
qed


section \<open>Frame properties of the entry functions and of \<open>setState\<close>\<close>

lemma collectOtherNodes_no_dispatch:
  "filter isDispatch (snd (collectOtherNodes nd oi zero ns i)) = []"
  by (induction ns arbitrary: i) (simp_all add: Let_def split_def)

lemma reorderStateInit_frame:
  assumes "reorderStateInit e = Some (s, e1)"
  shows "state e1 = state e \<and> timers e1 = timers e \<and> dispatches e1 = dispatches e
         \<and> target e1 \<noteq> None \<and> dispatchEvent e1 = dispatchEvent e
         \<and> init s = Reorder \<and> ctor s = None"
proof -
  obtain tg where tg: "target e = Some tg"
    using assms by (auto simp: reorderStateInit_def split: option.splits)
  have nd: "filter isDispatch (snd (collectOtherNodes (node tg) (findIndex tg (childNodes e))
              (zeroPoint (node tg)) (childNodes e) 0)) = []"
    by (rule collectOtherNodes_no_dispatch)
  show ?thesis
    using assms tg nd
    by (auto simp: reorderStateInit_def reorder_onMove_def newStateObject_def emit_def
                   dispatches_def Let_def split_def
             split: option.splits if_splits)
qed

lemma reorderStateInit_ok:
  "target e \<noteq> None \<Longrightarrow> \<exists>s e1. reorderStateInit e = Some (s, e1)"
  by (auto simp: reorderStateInit_def reorder_onMove_def newStateObject_def Let_def split_def
           split: option.splits)

lemma idleStateInit_frame:
  "\<exists>s e1. idleStateInit e = Some (s, e1) \<and> state e1 = state e \<and> timers e1 = timers e
     \<and> dispatches e1 = dispatches e \<and> target e1 = None \<and> init s = Idle"
  by (auto simp: idleStateInit_def removeMouseHandlers_def newStateObject_def emit_def
                 dispatches_def Let_def split_def
           split: option.splits)

lemma leaveState_frame:
  assumes "leaveState s e = Some e1"
  shows "state e1 = state e \<and> target e1 = target e \<and> dispatches e1 = dispatches e
         \<and> dispatchEvent e1 = dispatchEvent e"
proof -
  have "filter isDispatch (concat (map (\<lambda>sn.
           [StyleSet (o_node sn) ''transform'' (Some (tf_original (o_baseTransform sn))),
            StyleSet (o_node sn) ''willChange'' None,
            StyleSet (o_node sn) ''transition'' (Some [])]) xs)) = []" for xs :: "sibling list"
    by (induction xs) simp_all
  then show ?thesis
    using assms
    by (auto simp: leaveState_def clearTimeout_def animateToZero_def setTimeout_def emit_def
                   dispatches_def Let_def
             split: state_ctor.splits option.splits)
qed

lemma leaveState_ok:
  "target e \<noteq> None \<or> init s \<noteq> Reorder \<Longrightarrow> \<exists>e1. leaveState s e = Some e1"
  by (auto simp: leaveState_def clearTimeout_def emit_def Let_def
           split: state_ctor.splits option.splits)

lemma leavePrevious_frame:
  "leavePrevious e = Some e1 \<Longrightarrow>
     state e1 = state e \<and> target e1 = target e \<and> dispatches e1 = dispatches e
     \<and> dispatchEvent e1 = dispatchEvent e"
  using leaveState_frame by (auto simp: leavePrevious_def split: option.splits)

lemma leavePrevious_ok:
  "target e \<noteq> None \<Longrightarrow> \<exists>e1. leavePrevious e = Some e1"
  using leaveState_ok by (auto simp: leavePrevious_def split: option.splits)

lemma commit_idle:
  "\<exists>e2 s. commitState idleStateInit Idle e = Some e2 \<and> state e2 = Some s
      \<and> ctor s = Some Idle \<and> init s = Idle \<and> target e2 = None
      \<and> dispatches e2 = dispatches e \<and> timers e2 = timers e"
proof -
  obtain s e1 where i: "idleStateInit e = Some (s, e1)" "state e1 = state e"
      "timers e1 = timers e" "dispatches e1 = dispatches e" "target e1 = None" "init s = Idle"
    using idleStateInit_frame [of e] by blast
  then show ?thesis
    by (simp add: commitState_def sameObject_def dispatches_def)
qed

lemma setState_Idle_ok:
  assumes "target e \<noteq> None"
  shows "\<exists>e2. setState Idle e = Some e2 \<and> dispatches e2 = dispatches e \<and> alreadyIn Idle e2"
proof (cases "alreadyIn Idle e")
  case True
  then show ?thesis by (simp add: setState_def setStateWith_def)
next
  case False
  obtain e1 where l: "leavePrevious e = Some e1"
    using leavePrevious_ok [OF assms] by blast
  then have d: "dispatches e1 = dispatches e" using leavePrevious_frame by blast
  obtain e2 s where c: "commitState idleStateInit Idle e1 = Some e2" "state e2 = Some s"
      "ctor s = Some Idle" "dispatches e2 = dispatches e1"
    using commit_idle [of e1] by blast
  with False l d show ?thesis
    by (simp add: setState_def setStateWith_def stateInit_def alreadyIn_def)
qed

lemma cancel_lands_in_idle:
  assumes "cancel e = Some e1"
  shows "alreadyIn Idle e1"
proof (cases "alreadyIn Idle e")
  case True
  with assms show ?thesis by (simp add: cancel_def setState_def setStateWith_def)
next
  case False
  with assms obtain e0 where l: "leavePrevious e = Some e0"
      and c: "commitState idleStateInit Idle e0 = Some e1"
    by (auto simp: cancel_def setState_def setStateWith_def stateInit_def
             split: Option.bind_splits)
  obtain e2 s where "commitState idleStateInit Idle e0 = Some e2" "state e2 = Some s"
      "ctor s = Some Idle"
    using commit_idle [of e0] by blast
  with c show ?thesis by (simp add: alreadyIn_def)
qed

lemma scanForward_mono:
  assumes "y1 \<le> y2"
  shows "scanForward os y1 0 \<le> scanForward os y2 0"
proof (rule ccontr)
  assume "\<not> ?thesis"
  then have lt: "scanForward os y2 0 < scanForward os y1 0" by simp
  have "scanForward os y1 0 \<le> length os" using scanForward_bounds [of 0 os y1] by simp
  with lt have "scanForward os y2 0 < length os" by simp
  then have "js_gt (pos (os ! scanForward os y2 0)) (Number y2)" by (rule scanForward_hit)
  moreover have "\<not> js_gt (pos (os ! scanForward os y2 0)) (Number y1)"
    using scanForward_skipped [of 0 "scanForward os y2 0" os y1] lt by simp
  ultimately show False using assms js_gt_mono by blast
qed

lemma scanBackward_mono:
  assumes "y1 \<le> y2"
  shows "scanBackward os y1 (int (length os) - 1) \<le> scanBackward os y2 (int (length os) - 1)"
proof (rule ccontr)
  let ?n = "int (length os)"
  assume "\<not> ?thesis"
  then have lt: "scanBackward os y2 (?n - 1) < scanBackward os y1 (?n - 1)" by simp
  have b2: "- 1 \<le> scanBackward os y2 (?n - 1)"
    using scanBackward_bounds [of "?n - 1" os y2] by simp
  have b1: "scanBackward os y1 (?n - 1) \<le> ?n - 1"
    using scanBackward_bounds [of "?n - 1" os y1] by simp
  from lt b2 have ge: "0 \<le> scanBackward os y1 (?n - 1)" by simp
  then have "js_lt (pos (os ! nat (scanBackward os y1 (?n - 1)))) (Number y1)" by (rule scanBackward_hit)
  moreover have "\<not> js_lt (pos (os ! nat (scanBackward os y1 (?n - 1)))) (Number y2)"
    using scanBackward_skipped [of os y2 "?n - 1" "scanBackward os y1 (?n - 1)"] lt b1 by simp
  ultimately show False using assms js_lt_mono by blast
qed

lemma scan_cross:
  assumes "y1 < 0" "0 \<le> y2" and numbers: "\<forall>sn \<in> set os. pos sn \<noteq> NaN"
  shows "int (scanForward os y1 0) \<le> scanBackward os y2 (int (length os) - 1) + 1"
proof (rule ccontr)
  let ?n = "int (length os)"
  let ?f = "scanForward os y1 0"
  let ?b = "scanBackward os y2 (?n - 1)"
  assume "\<not> ?thesis"
  then have lt: "?b + 1 < int ?f" by simp
  have b2: "- 1 \<le> ?b" using scanBackward_bounds [of "?n - 1" os y2] by simp
  have f1: "?f \<le> length os" using scanForward_bounds [of 0 os y1] by simp
  define j where "j = nat (?b + 1)"
  have j: "int j = ?b + 1" using b2 by (simp add: j_def)
  have "j < ?f" using lt j by linarith
  then have "\<not> js_gt (pos (os ! j)) (Number y1)" using scanForward_skipped [of 0 j os y1] by simp
  moreover have "\<not> js_lt (pos (os ! nat (int j))) (Number y2)"
    using scanBackward_skipped [of os y2 "?n - 1" "int j"] j \<open>j < ?f\<close> f1 by simp
  moreover have "pos (os ! j) \<noteq> NaN" using numbers \<open>j < ?f\<close> f1 by simp
  ultimately show False using assms js_not_gt_lt [of "pos (os ! j)" y1 y2] by simp
qed

lemma snapshot_split:
  assumes "\<forall>n \<in> set aboveNodes \<union> set belowNodes. ref n \<noteq> ref nd"
  shows "map (snapshotOf zero)
           (filter (\<lambda>n. isElement n \<and> ref n \<noteq> ref nd) (aboveNodes @ nd # belowNodes))
         = map (snapshotOf zero) (filter isElement aboveNodes)
           @ map (snapshotOf zero) (filter isElement belowNodes)"
proof -
  have "filter (\<lambda>n. isElement n \<and> ref n \<noteq> ref nd) xs = filter isElement xs"
    if "\<forall>n \<in> set xs. ref n \<noteq> ref nd" for xs
    using that by (induction xs) auto
  then show ?thesis using assms by simp
qed

lemma spliceIndexOf_at_zero:
  assumes neg: "\<forall>sn \<in> set lower. js_lt (pos sn) (Number 0)"
    and pos: "\<forall>sn \<in> set upper. js_gt (pos sn) (Number 0)"
  shows "spliceIndexOf (lower @ upper) 0 = int (length lower)"
proof -
  have "scanBackward (lower @ upper) 0 (int (length (lower @ upper)) - 1) + 1 = int (length lower)"
  proof (rule scanBackward_split)
    show "length lower \<le> length (lower @ upper)" by simp
    show "\<forall>i < length lower. js_lt (pos ((lower @ upper) ! i)) (Number 0)"
      using neg by (simp add: nth_append)
    show "\<forall>i. length lower \<le> i \<and> i < length (lower @ upper) \<longrightarrow> \<not> js_lt (pos ((lower @ upper) ! i)) (Number 0)"
    proof (intro allI impI)
      fix i assume i: "length lower \<le> i \<and> i < length (lower @ upper)"
      then have "(lower @ upper) ! i = upper ! (i - length lower)" "i - length lower < length upper"
        by (auto simp: nth_append)
      then have "js_gt (pos ((lower @ upper) ! i)) (Number 0)" using pos by (metis nth_mem)
      then show "\<not> js_lt (pos ((lower @ upper) ! i)) (Number 0)" by (rule js_gt_not_lt)
    qed
  qed
  then show ?thesis by (simp add: spliceIndexOf_def)
qed

lemma reorderDetail_at_zero:
  assumes neg: "\<forall>sn \<in> set lower. js_lt (pos sn) (Number 0)"
    and pos: "\<forall>sn \<in> set upper. js_gt (pos sn) (Number 0)"
  shows "reorderDetail (lower @ upper) oi 0
         = \<lparr>spliceIndex = int (length lower), detailOriginalIndex = oi,
            insertBefore = (case upper of [] \<Rightarrow> None | sn # rest \<Rightarrow> Some (o_node sn))\<rparr>"
  using spliceIndexOf_at_zero [OF neg pos]
  by (cases upper) (simp_all add: reorderDetail_def Let_def nth_append)

lemma reorder_onEnd_dispatches:
  assumes mv: "getTotalMovement e = Some move"
  shows "\<exists>tg e2. target e = Some tg \<and> reorder_onEnd s e = Some (Some False, e2)
           \<and> dispatches e2 = dispatches e
               @ [Dispatch (ref (node tg)) ''slip:reorder''
                    (Some (reorderDetail (otherNodes s) (originalIndex s) (m_y move)))]"
proof -
  obtain tg where tg: "target e = Some tg"
    using mv by (auto simp: getTotalMovement_def split: option.splits)
  let ?e1 = "emit [Dispatch (ref (node tg)) ''slip:reorder''
                    (Some (reorderDetail (otherNodes s) (originalIndex s) (m_y move)))] e"
  have "target ?e1 \<noteq> None" using tg by (simp add: emit_def)
  then obtain e2 where e2: "setState Idle ?e1 = Some e2" "dispatches e2 = dispatches ?e1"
    using setState_Idle_ok by blast
  have "dispatches ?e1 = dispatches e
          @ [Dispatch (ref (node tg)) ''slip:reorder''
               (Some (reorderDetail (otherNodes s) (originalIndex s) (m_y move)))]"
    by (simp add: dispatches_def emit_def)
  with e2 tg mv show ?thesis
    by (simp add: reorder_onEnd_def dispatch_def)
qed

lemma fiveItems_snapshot:
  assumes "0 < H"
  shows "map (snapshotOf (zeroPoint (listItem 2 H)))
           (filter (\<lambda>n. isElement n \<and> ref n \<noteq> ref (listItem 2 H)) (fiveItems H))
         = [\<lparr>o_node = 0, o_baseTransform = noTransform, pos = Number (- (3 * H / 2))\<rparr>,
            \<lparr>o_node = 1, o_baseTransform = noTransform, pos = Number (- (H / 2))\<rparr>,
            \<lparr>o_node = 3, o_baseTransform = noTransform, pos = Number (H / 2)\<rparr>,
            \<lparr>o_node = 4, o_baseTransform = noTransform, pos = Number (3 * H / 2)\<rparr>]"
  using assms
  by (simp add: fiveItems_def listItem_def isElement_def snapshotOf_def siblingPos_def
                measuredHeight_def zeroPoint_def Let_def)

lemma newStateObject_frame:
  "newStateObject k e = (s, e1) \<Longrightarrow>
     state e1 = state e \<and> target e1 = target e \<and> timers e1 = timers e
     \<and> effects e1 = effects e \<and> dispatchEvent e1 = dispatchEvent e
     \<and> init s = k \<and> holdTimer s = None \<and> obj s = fresh e"
  by (auto simp: newStateObject_def)

lemma leaveState_hold_timers:
  assumes "leaveState s e = Some e1"
  shows "\<forall>t \<in> set (timers e1). callback t = HoldTimer \<longrightarrow> t \<in> set (timers e)"
  using assms
  by (auto simp: leaveState_def clearTimeout_def animateToZero_def setTimeout_def emit_def
                 Let_def
           split: state_ctor.splits option.splits)

lemma leaveState_fresh:
  assumes "leaveState s e = Some e1"
  shows "fresh e \<le> fresh e1"
  using assms
  by (auto simp: leaveState_def clearTimeout_def animateToZero_def setTimeout_def emit_def
                 Let_def
           split: state_ctor.splits option.splits)

lemma leavePrevious_fresh:
  "leavePrevious e = Some e1 \<Longrightarrow> fresh e \<le> fresh e1"
  using leaveState_fresh by (auto simp: leavePrevious_def split: option.splits)

lemma reorderStateInit_obj:
  "reorderStateInit e = Some (s, e1) \<Longrightarrow> obj s = fresh e"
  by (auto simp: reorderStateInit_def reorder_onMove_def newStateObject_def emit_def
                 Let_def split_def
           split: option.splits if_splits)

lemma setState_Reorder_ok:
  assumes "target e \<noteq> None"
  shows "\<exists>e2. setStateWith reorderStateInit Reorder e = Some e2 \<and> alreadyIn Reorder e2
           \<and> dispatches e2 = dispatches e
           \<and> (\<forall>t \<in> set (timers e2). callback t = HoldTimer \<longrightarrow> t \<in> set (timers e))
           \<and> (alreadyIn Reorder e \<longrightarrow> e2 = e)
           \<and> (\<not> alreadyIn Reorder e \<longrightarrow>
                (\<exists>s. state e2 = Some s \<and> fresh e \<le> obj s \<and> init s = Reorder))"
proof (cases "alreadyIn Reorder e")
  case True
  then show ?thesis by (simp add: setStateWith_def)
next
  case False
  obtain e1 where l: "leavePrevious e = Some e1"
    using leavePrevious_ok [OF assms] by blast
  then have f1: "state e1 = state e" "target e1 = target e" "dispatches e1 = dispatches e"
    using leavePrevious_frame by blast+
  have fr: "fresh e \<le> fresh e1" using l by (rule leavePrevious_fresh)
  have t1: "\<forall>t \<in> set (timers e1). callback t = HoldTimer \<longrightarrow> t \<in> set (timers e)"
    using l leaveState_hold_timers by (auto simp: leavePrevious_def split: option.splits)
  obtain s e2 where i: "reorderStateInit e1 = Some (s, e2)"
    using reorderStateInit_ok [of e1] f1 assms by auto
  then have f2: "state e2 = state e1" "timers e2 = timers e1" "dispatches e2 = dispatches e1"
      "init s = Reorder"
    using reorderStateInit_frame by blast+
  have ob: "obj s = fresh e1" using i by (rule reorderStateInit_obj)
  show ?thesis
    using False l i f1 f2 t1 ob fr
    by (simp add: setStateWith_def commitState_def sameObject_def alreadyIn_def dispatches_def)
qed

lemma undecidedStateInit_changes_state:
  assumes "undecidedStateInit e = Some (s, e')" and "\<not> sameObject (state e') (state e)"
  shows "alreadyIn Reorder e'"
proof -
  obtain tg where tg: "target e = Some tg"
    using assms(1) by (auto simp: undecidedStateInit_def split: option.splits)
  let ?e2 = "emit [StyleSet (ref (node tg)) ''willChange'' (Some ''transform''),
                   StyleSet (ref (node tg)) ''transition'' (Some [])]
               (e\<lparr>target := Some (tg\<lparr>height := Some (measuredHeight (node tg))\<rparr>)\<rparr>)"
  let ?e3 = "emit [Dispatch (originalTarget tg) ''slip:beforewait'' None] ?e2"
  let ?e4 = "emit [Dispatch (originalTarget tg) ''slip:beforereorder'' None] ?e3"
  have d: "dispatchEvent ?e2 = dispatchEvent e" "dispatchEvent ?e3 = dispatchEvent e"
    by (simp_all add: emit_def)
  show ?thesis
  proof (cases "\<not> dispatchEvent e (originalTarget tg) ''slip:beforewait''
                \<and> dispatchEvent e (originalTarget tg) ''slip:beforereorder''")
    case True
    have "target ?e4 \<noteq> None" by (simp add: emit_def)
    then obtain e5 where e5: "setStateWith reorderStateInit Reorder ?e4 = Some e5"
        "alreadyIn Reorder e5"
      using setState_Reorder_ok by blast
    with assms(1) tg True d have "e' = snd (newStateObject Undecided e5)"
      by (auto simp: undecidedStateInit_def dispatch_def Let_def)
    with e5 show ?thesis by (simp add: newStateObject_def alreadyIn_def)
  next
    case False
    with assms(1) tg d have "state e' = state e"
      by (auto simp: undecidedStateInit_def dispatch_def Let_def setTimeout_def
                     newStateObject_def emit_def split: if_splits)
    with assms(2) show ?thesis by (simp add: sameObject_def)
  qed
qed

lemma waitingEngine_reached:
  "startAtPosition \<lparr>p_x = 0, p_y = 0, p_time = 0\<rparr> (pressedEngine 40 (\<lambda>n ty. True))
     = Some waitingEngine"
  by (simp add: startAtPosition_def setState_def setStateWith_def alreadyIn_def
        pressedEngine_def idleObject_def waitingEngine_def
        leavePrevious_def leaveState_def commitState_def stateInit_def undecidedStateInit_def
        dispatch_def emit_def setTimeout_def newStateObject_def sameObject_def
        measuredHeight_def listItem_def Let_def)

lemma setState_Idle_from_undecided:
  assumes st: "state e = Some s" "init s = Undecided" "ctor s = Some Undecided"
  shows "\<exists>e'. setState Idle e = Some e'
           \<and> (\<exists>c. state e' = Some c \<and> init c = Idle \<and> ctor c = Some Idle)
           \<and> target e' = None
           \<and> timers e' = filter (\<lambda>t. Some (timer_id t) \<noteq> holdTimer s) (timers e)
           \<and> latestPosition e' = latestPosition e
           \<and> previousPosition e' = previousPosition e
           \<and> startPosition e' = startPosition e
           \<and> dispatches e' = dispatches e"
  using st
  by (cases "holdTimer s")
     (auto simp: setState_def setStateWith_def alreadyIn_def leavePrevious_def leaveState_def
                 clearTimeout_def commitState_def stateInit_def idleStateInit_def
                 removeMouseHandlers_def newStateObject_def emit_def sameObject_def
                 dispatches_def Let_def
           split: option.splits)

lemma cleared_timer_does_not_fire:
  assumes "timers e = filter (\<lambda>x. Some (timer_id x) \<noteq> Some t) xs"
  shows "fireTimer t e = Some e"
proof -
  have "find (\<lambda>x. timer_id x = t) (filter (\<lambda>x. Some (timer_id x) \<noteq> Some t) ys) = None"
    for ys :: "timer list"
    by (induction ys) auto
  with assms show ?thesis by (simp add: fireTimer_def)
qed


lemma undecidedStateInit_vetoed_wait:
  assumes tg: "target e = Some tg"
    and bw: "\<not> dispatchEvent e (originalTarget tg) ''slip:beforewait''"
    and br: "dispatchEvent e (originalTarget tg) ''slip:beforereorder''"
  shows "\<exists>s e'. undecidedStateInit e = Some (s, e')
           \<and> dispatches e' = dispatches e
               @ [Dispatch (originalTarget tg) ''slip:beforewait'' None,
                  Dispatch (originalTarget tg) ''slip:beforereorder'' None]
           \<and> alreadyIn Reorder e'
           \<and> holdTimer s = None
           \<and> init s = Undecided
           \<and> (\<forall>t \<in> set (timers e'). callback t = HoldTimer \<longrightarrow> t \<in> set (timers e))
           \<and> (alreadyIn Reorder e \<longrightarrow> state e' = state e)
           \<and> (\<not> alreadyIn Reorder e \<longrightarrow>
                (\<exists>c. state e' = Some c \<and> fresh e \<le> obj c \<and> init c = Reorder
                   \<and> ctor c = Some Reorder))"
proof -
  let ?e2 = "emit [StyleSet (ref (node tg)) ''willChange'' (Some ''transform''),
                   StyleSet (ref (node tg)) ''transition'' (Some [])]
               (e\<lparr>target := Some (tg\<lparr>height := Some (measuredHeight (node tg))\<rparr>)\<rparr>)"
  let ?e3 = "emit [Dispatch (originalTarget tg) ''slip:beforewait'' None] ?e2"
  let ?e4 = "emit [Dispatch (originalTarget tg) ''slip:beforereorder'' None] ?e3"
  have d: "dispatchEvent ?e2 = dispatchEvent e" "dispatchEvent ?e3 = dispatchEvent e"
    by (simp_all add: emit_def)
  have "target ?e4 \<noteq> None" by (simp add: emit_def)
  then obtain e5 where e5: "setStateWith reorderStateInit Reorder ?e4 = Some e5"
      "alreadyIn Reorder e5" "dispatches e5 = dispatches ?e4"
      "\<forall>t \<in> set (timers e5). callback t = HoldTimer \<longrightarrow> t \<in> set (timers ?e4)"
      "alreadyIn Reorder ?e4 \<longrightarrow> e5 = ?e4"
      "\<not> alreadyIn Reorder ?e4 \<longrightarrow>
         (\<exists>c. state e5 = Some c \<and> fresh ?e4 \<le> obj c \<and> init c = Reorder)"
    using setState_Reorder_ok by blast
  have run: "undecidedStateInit e = Some (newStateObject Undecided e5)"
    using tg bw br d e5(1) by (simp add: undecidedStateInit_def dispatch_def Let_def)
  have d4: "dispatches ?e4 = dispatches e
              @ [Dispatch (originalTarget tg) ''slip:beforewait'' None,
                 Dispatch (originalTarget tg) ''slip:beforereorder'' None]"
    by (simp add: dispatches_def emit_def)
  have t4: "timers ?e4 = timers e" "fresh ?e4 = fresh e"
      "alreadyIn Reorder ?e4 = alreadyIn Reorder e" "state ?e4 = state e"
    by (simp_all add: emit_def alreadyIn_def)
  show ?thesis
    using run e5 d4 t4
    by (auto simp: newStateObject_def alreadyIn_def dispatches_def)
qed





text \<open>
  The same pointer-down on an engine that is in reorder: leaving reorder keeps the state
  object in place, the inner \<open>setState(reorder)\<close> returns at once, and undecided is committed
  with no hold timer.
\<close>

lemma vetoed_wait_from_reorder:
  assumes tg: "target e = Some tg"
    and r: "alreadyIn Reorder e"
    and bw: "\<not> dispatchEvent e (originalTarget tg) ''slip:beforewait''"
    and br: "dispatchEvent e (originalTarget tg) ''slip:beforereorder''"
  shows "\<exists>e' c. setState Undecided e = Some e' \<and> state e' = Some c
           \<and> init c = Undecided \<and> ctor c = Some Undecided \<and> holdTimer c = None
           \<and> (\<forall>t \<in> set (timers e'). callback t = HoldTimer \<longrightarrow> t \<in> set (timers e))"
proof -
  have nu: "\<not> alreadyIn Undecided e" using r by (auto simp: alreadyIn_def split: option.splits)
  obtain e1 where l: "leavePrevious e = Some e1"
    using leavePrevious_ok [of e] tg by auto
  then have f: "state e1 = state e" "target e1 = target e" "dispatchEvent e1 = dispatchEvent e"
    using leavePrevious_frame by blast+
  have t1: "\<forall>t \<in> set (timers e1). callback t = HoldTimer \<longrightarrow> t \<in> set (timers e)"
    using l leaveState_hold_timers by (auto simp: leavePrevious_def split: option.splits)
  have r1: "alreadyIn Reorder e1" using r f by (simp add: alreadyIn_def)
  obtain s e' where i: "undecidedStateInit e1 = Some (s, e')"
      and h: "holdTimer s = None" "init s = Undecided" "state e' = state e1"
      and t: "\<forall>t \<in> set (timers e'). callback t = HoldTimer \<longrightarrow> t \<in> set (timers e1)"
    using undecidedStateInit_vetoed_wait [of e1 tg] tg f bw br r1 by auto
  have "setState Undecided e = Some (e'\<lparr>state := Some (s\<lparr>ctor := Some Undecided\<rparr>)\<rparr>)"
    using nu l i h
    by (simp add: setState_def setStateWith_def commitState_def stateInit_def sameObject_def)
  then show ?thesis using h t t1 by auto
qed


section \<open>The scenario engines\<close>

lemma pressedEngine_fields:
  "target (pressedEngine H L)
     = Some \<lparr>originalTarget = 2, node = listItem 2 H, scrollTop = 0, origScrollTop = 0,
             origScrollHeight = 5 * H, baseTransform = noTransform, height = None\<rparr>"
  "state (pressedEngine H L) = Some idleObject"
  "dispatchEvent (pressedEngine H L) = L"
  "childNodes (pressedEngine H L) = fiveItems H"
  "timers (pressedEngine H L) = []"
  "effects (pressedEngine H L) = []"
  "fresh (pressedEngine H L) = 1"
  "startPosition (pressedEngine H L) = Some \<lparr>p_x = 0, p_y = 0, p_time = 0\<rparr>"
  "latestPosition (pressedEngine H L) = Some \<lparr>p_x = 0, p_y = 0, p_time = 0\<rparr>"
  "previousPosition (pressedEngine H L) = Some \<lparr>p_x = 0, p_y = 0, p_time = 0\<rparr>"
  "canPreventScrolling (pressedEngine H L)"
  by (simp_all add: pressedEngine_def)


section \<open>The claims\<close>

text \<open>
  C1. For every frozen snapshot (the list of \<open>pos\<close> values in sibling order) and every
  signed vertical displacement \<open>y\<close>, the calculator returns: for \<open>y < 0\<close> the index of the
  first sibling whose \<open>pos\<close> is strictly greater than \<open>y\<close>, or the sibling count when no
  sibling qualifies; for \<open>y \<ge> 0\<close> one plus the index of the last sibling whose \<open>pos\<close> is
  strictly less than \<open>y\<close>, or 0 when no sibling qualifies.
\<close>

theorem spliceIndexOf_first_last:
  "(y < 0 \<longrightarrow>
      (if \<exists>i < length os. js_gt (pos (os ! i)) (Number y)
       then spliceIndexOf os y = int (LEAST i. i < length os \<and> js_gt (pos (os ! i)) (Number y))
       else spliceIndexOf os y = int (length os)))
   \<and> (\<not> y < 0 \<longrightarrow>
      (if \<exists>i < length os. js_lt (pos (os ! i)) (Number y)
       then spliceIndexOf os y = int (GREATEST i. i < length os \<and> js_lt (pos (os ! i)) (Number y)) + 1
       else spliceIndexOf os y = 0))"
proof (intro conjI impI)
  assume neg: "y < 0"
  let ?r = "scanForward os y 0"
  have r: "spliceIndexOf os y = int ?r" using neg by (simp add: spliceIndexOf_def)
  have le: "?r \<le> length os" using scanForward_bounds [of 0 os y] by simp
  show "if \<exists>i < length os. js_gt (pos (os ! i)) (Number y)
       then spliceIndexOf os y = int (LEAST i. i < length os \<and> js_gt (pos (os ! i)) (Number y))
       else spliceIndexOf os y = int (length os)"
  proof (cases "\<exists>i < length os. js_gt (pos (os ! i)) (Number y)")
    case True
    then obtain k where k: "k < length os" "js_gt (pos (os ! k)) (Number y)" by blast
    have "\<not> k < ?r" using scanForward_skipped [of 0 k os y] k by auto
    then have lt: "?r < length os" using k by simp
    have "(LEAST i. i < length os \<and> js_gt (pos (os ! i)) (Number y)) = ?r"
    proof (rule Least_equality)
      show "?r < length os \<and> js_gt (pos (os ! ?r)) (Number y)" using lt scanForward_hit by blast
    next
      fix j assume "j < length os \<and> js_gt (pos (os ! j)) (Number y)"
      then show "?r \<le> j" using scanForward_skipped [of 0 j os y] by force
    qed
    with True r show ?thesis by simp
  next
    case False
    have "\<not> ?r < length os" using scanForward_hit [of os y 0] False by blast
    with le have "?r = length os" by simp
    with False r show ?thesis by auto
  qed
next
  assume nneg: "\<not> y < 0"
  let ?n = "int (length os)"
  let ?r = "scanBackward os y (?n - 1)"
  have r: "spliceIndexOf os y = ?r + 1" using nneg by (simp add: spliceIndexOf_def)
  have bd: "- 1 \<le> ?r \<and> ?r \<le> ?n - 1" using scanBackward_bounds [of "?n - 1" os y] by simp
  show "if \<exists>i < length os. js_lt (pos (os ! i)) (Number y)
       then spliceIndexOf os y = int (GREATEST i. i < length os \<and> js_lt (pos (os ! i)) (Number y)) + 1
       else spliceIndexOf os y = 0"
  proof (cases "\<exists>i < length os. js_lt (pos (os ! i)) (Number y)")
    case True
    then obtain k where k: "k < length os" "js_lt (pos (os ! k)) (Number y)" by blast
    have "\<not> ?r < int k" using scanBackward_skipped [of os y "?n - 1" "int k"] k by auto
    then have ge: "0 \<le> ?r" by simp
    have hit: "js_lt (pos (os ! nat ?r)) (Number y)" using ge scanBackward_hit by blast
    have "(GREATEST i. i < length os \<and> js_lt (pos (os ! i)) (Number y)) = nat ?r"
    proof (rule Greatest_equality)
      show "nat ?r < length os \<and> js_lt (pos (os ! nat ?r)) (Number y)" using hit bd ge by auto
    next
      fix j assume j: "j < length os \<and> js_lt (pos (os ! j)) (Number y)"
      have "\<not> ?r < int j" using scanBackward_skipped [of os y "?n - 1" "int j"] j by auto
      then show "j \<le> nat ?r" by simp
    qed
    with True r ge show ?thesis by simp
  next
    case False
    have "\<not> 0 \<le> ?r"
    proof
      assume ge: "0 \<le> ?r"
      then have "js_lt (pos (os ! nat ?r)) (Number y)" using scanBackward_hit by blast
      moreover have "nat ?r < length os" using bd ge by auto
      ultimately show False using False by blast
    qed
    with bd have "?r = - 1" by simp
    with False r show ?thesis by auto
  qed
qed

theorem spliceIndexOf_first_last_witness:
  "spliceIndexOf fourSiblings (- 30)
     = int (LEAST i. i < length fourSiblings \<and> js_gt (pos (fourSiblings ! i)) (Number (- 30)))
   \<and> spliceIndexOf fourSiblings (- 30) = 1
   \<and> spliceIndexOf fourSiblings 30
     = int (GREATEST i. i < length fourSiblings \<and> js_lt (pos (fourSiblings ! i)) (Number 30)) + 1
   \<and> spliceIndexOf fourSiblings 30 = 3"
proof -
  have up: "\<exists>i < length fourSiblings. js_gt (pos (fourSiblings ! i)) (Number (- 30))"
    by (rule exI [of _ 1]) (simp add: fourSiblings_def)
  have down: "\<exists>i < length fourSiblings. js_lt (pos (fourSiblings ! i)) (Number 30)"
    by (rule exI [of _ 0]) (simp add: fourSiblings_def)
  have a: "spliceIndexOf fourSiblings (- 30)
             = int (LEAST i. i < length fourSiblings \<and> js_gt (pos (fourSiblings ! i)) (Number (- 30)))"
    using spliceIndexOf_first_last [of "- 30" fourSiblings] up by simp
  have b: "spliceIndexOf fourSiblings 30
             = int (GREATEST i. i < length fourSiblings \<and> js_lt (pos (fourSiblings ! i)) (Number 30)) + 1"
    using spliceIndexOf_first_last [of 30 fourSiblings] down by simp
  have c: "spliceIndexOf fourSiblings (- 30) = 1"
    by (simp add: spliceIndexOf_def fourSiblings_def scanForward.simps)
  have d: "spliceIndexOf fourSiblings 30 = 3"
    by (simp add: spliceIndexOf_def fourSiblings_def scanBackward.simps)
  from a b c d show ?thesis by simp
qed

text \<open>
  C2. For a gesture that reaches reorder and ends with net vertical displacement exactly 0,
  when every element sibling above the dragged node has negative \<open>pos\<close> and every one
  below has positive \<open>pos\<close>: the splice index of the \<open>slip:reorder\<close> event equals the
  dragged node's original index among the element children, and \<open>insertBefore\<close> is the
  element sibling that followed the dragged node, or null when it was last. The dragged
  node is an element child of the container, and no other child is the same node.
\<close>

theorem zero_displacement_keeps_place:
  assumes tg: "target e = Some tg"
    and nodes: "childNodes e = aboveNodes @ node tg # belowNodes"
    and elem: "isElement (node tg)"
    and others: "\<forall>n \<in> set aboveNodes \<union> set belowNodes. ref n \<noteq> ref (node tg)"
    and neg: "\<forall>n \<in> set aboveNodes. isElement n \<longrightarrow>
                js_lt (siblingPos (zeroPoint (node tg)) n) (Number 0)"
    and pos: "\<forall>n \<in> set belowNodes. isElement n \<longrightarrow>
                js_gt (siblingPos (zeroPoint (node tg)) n) (Number 0)"
  shows "\<exists>s e1. reorderStateInit e = Some (s, e1)
           \<and> originalIndex s = length (filter isElement aboveNodes)
           \<and> (\<forall>e' move. getTotalMovement e' = Some move \<and> m_y move = 0 \<longrightarrow>
                 (\<exists>handler tg' e2. onEnd (s\<lparr>ctor := Some Reorder\<rparr>) = Some handler
                    \<and> target e' = Some tg'
                    \<and> handler e' = Some (Some False, e2)
                    \<and> dispatches e2 = dispatches e'
                        @ [Dispatch (ref (node tg')) ''slip:reorder''
                             (Some \<lparr>spliceIndex = int (length (filter isElement aboveNodes)),
                                    detailOriginalIndex = length (filter isElement aboveNodes),
                                    insertBefore =
                                      (case filter isElement belowNodes of
                                         [] \<Rightarrow> None
                                       | b # rest \<Rightarrow> Some (ref b))\<rparr>)]))"
proof -
  let ?zero = "zeroPoint (node tg)"
  let ?lower = "map (snapshotOf ?zero) (filter isElement aboveNodes)"
  let ?upper = "map (snapshotOf ?zero) (filter isElement belowNodes)"
  let ?k = "length (filter isElement aboveNodes)"
  obtain s e1 where init: "reorderStateInit e = Some (s, e1)"
      and oi: "originalIndex s = findIndex tg (childNodes e)"
      and os: "otherNodes s = map (snapshotOf ?zero)
                 (filter (\<lambda>n. isElement n \<and> ref n \<noteq> ref (node tg)) (childNodes e))"
    using reorderStateInit_closure [OF tg] by blast
  have k: "originalIndex s = ?k"
    using oi nodes findIndex_target [OF others elem] by simp
  have os2: "otherNodes s = ?lower @ ?upper"
    using os nodes snapshot_split [OF others] by simp
  have lneg: "\<forall>sn \<in> set ?lower. js_lt (pos sn) (Number 0)" using neg by (auto simp: snapshotOf_def)
  have upos: "\<forall>sn \<in> set ?upper. js_gt (pos sn) (Number 0)" using pos by (auto simp: snapshotOf_def)
  have det: "reorderDetail (otherNodes s) (originalIndex s) 0
             = \<lparr>spliceIndex = int ?k, detailOriginalIndex = ?k,
                insertBefore = (case filter isElement belowNodes of
                                  [] \<Rightarrow> None | b # rest \<Rightarrow> Some (ref b))\<rparr>"
    using reorderDetail_at_zero [OF lneg upos, of ?k]
    by (simp add: os2 k snapshotOf_def split: list.splits)
  have kind: "init s = Reorder" using reorderStateInit_frame [OF init] by simp
  have "\<exists>handler tg' e2. onEnd (s\<lparr>ctor := Some Reorder\<rparr>) = Some handler
          \<and> target e' = Some tg'
          \<and> handler e' = Some (Some False, e2)
          \<and> dispatches e2 = dispatches e'
              @ [Dispatch (ref (node tg')) ''slip:reorder''
                   (Some \<lparr>spliceIndex = int ?k, detailOriginalIndex = ?k,
                          insertBefore = (case filter isElement belowNodes of
                                            [] \<Rightarrow> None | b # rest \<Rightarrow> Some (ref b))\<rparr>)]"
    if mv: "getTotalMovement e' = Some move" "m_y move = 0" for e' move
    using reorder_onEnd_dispatches [OF mv(1), of "s\<lparr>ctor := Some Reorder\<rparr>"] mv(2) det kind
    by (auto simp: onEnd_def)
  with init k show ?thesis by blast
qed

theorem zero_displacement_keeps_place_witness:
  "\<exists>s e1 e2. reorderStateInit (pressedEngine 40 (\<lambda>n ty. True)) = Some (s, e1)
     \<and> originalIndex s = 2
     \<and> onEnd (s\<lparr>ctor := Some Reorder\<rparr>) = Some (reorder_onEnd (s\<lparr>ctor := Some Reorder\<rparr>))
     \<and> reorder_onEnd (s\<lparr>ctor := Some Reorder\<rparr>) (pressedEngine 40 (\<lambda>n ty. True))
         = Some (Some False, e2)
     \<and> dispatches e2
         = [Dispatch 2 ''slip:reorder''
              (Some \<lparr>spliceIndex = 2, detailOriginalIndex = 2, insertBefore = Some 3\<rparr>)]"
proof -
  let ?E = "pressedEngine 40 (\<lambda>n ty. True)"
  let ?tg = "\<lparr>originalTarget = 2, node = listItem 2 40, scrollTop = 0,
               origScrollTop = 0, origScrollHeight = 5 * 40,
               baseTransform = noTransform, height = None\<rparr>"
  let ?up = "[listItem 0 40, listItem 1 40]"
  let ?down = "[listItem 3 40, listItem 4 40]"
  have tg: "target ?E = Some ?tg" by (simp add: pressedEngine_fields)
  have nodes: "childNodes ?E = ?up @ node ?tg # ?down"
    by (simp add: pressedEngine_fields fiveItems_def)
  have elem: "isElement (node ?tg)" by (simp add: isElement_def listItem_def)
  have others: "\<forall>n \<in> set ?up \<union> set ?down. ref n \<noteq> ref (node ?tg)"
    by (simp add: listItem_def)
  have neg: "\<forall>n \<in> set ?up. isElement n \<longrightarrow>
               js_lt (siblingPos (zeroPoint (node ?tg)) n) (Number 0)"
    by (simp add: siblingPos_def measuredHeight_def zeroPoint_def listItem_def)
  have pos: "\<forall>n \<in> set ?down. isElement n \<longrightarrow>
               js_gt (siblingPos (zeroPoint (node ?tg)) n) (Number 0)"
    by (simp add: siblingPos_def measuredHeight_def zeroPoint_def listItem_def)
  have mv: "getTotalMovement ?E = Some \<lparr>m_x = 0, m_y = 0, m_time = 0\<rparr>"
    by (simp add: getTotalMovement_def pressedEngine_fields)
  have el: "filter isElement ?up = ?up" "filter isElement ?down = ?down"
    by (simp_all add: isElement_def listItem_def)
  from zero_displacement_keeps_place [OF tg nodes elem others neg pos]
  obtain s e1 where a: "reorderStateInit ?E = Some (s, e1)"
    and b: "originalIndex s = length (filter isElement ?up)"
    and c: "\<forall>e' move. getTotalMovement e' = Some move \<and> m_y move = 0 \<longrightarrow>
                 (\<exists>handler tg' e2. onEnd (s\<lparr>ctor := Some Reorder\<rparr>) = Some handler
                    \<and> target e' = Some tg'
                    \<and> handler e' = Some (Some False, e2)
                    \<and> dispatches e2 = dispatches e'
                        @ [Dispatch (ref (node tg')) ''slip:reorder''
                             (Some \<lparr>spliceIndex = int (length (filter isElement ?up)),
                                    detailOriginalIndex = length (filter isElement ?up),
                                    insertBefore =
                                      (case filter isElement ?down of
                                         [] \<Rightarrow> None
                                       | b # rest \<Rightarrow> Some (ref b))\<rparr>)])"
    by (elim exE conjE) (rule that)
  have kind: "init s = Reorder" using reorderStateInit_frame [OF a] by simp
  have my: "m_y \<lparr>m_x = 0, m_y = 0, m_time = 0\<rparr> = 0" by simp
  from c [THEN spec, THEN spec, THEN mp, OF conjI [OF mv my]] obtain handler tg' e2
    where h: "onEnd (s\<lparr>ctor := Some Reorder\<rparr>) = Some handler"
      and t: "target ?E = Some tg'"
      and r: "handler ?E = Some (Some False, e2)"
      and d: "dispatches e2 = dispatches ?E
                @ [Dispatch (ref (node tg')) ''slip:reorder''
                     (Some \<lparr>spliceIndex = int (length (filter isElement ?up)),
                            detailOriginalIndex = length (filter isElement ?up),
                            insertBefore =
                              (case filter isElement ?down of
                                 [] \<Rightarrow> None
                               | b # rest \<Rightarrow> Some (ref b))\<rparr>)]"
    by (elim exE conjE) (rule that)
  have h': "handler = reorder_onEnd (s\<lparr>ctor := Some Reorder\<rparr>)"
    using h kind by (simp add: onEnd_def)
  have t': "ref (node tg') = 2" using t tg by (auto simp: listItem_def)
  have d0: "dispatches ?E = []" by (simp add: dispatches_def pressedEngine_fields)
  have "originalIndex s = 2" using b el by simp
  moreover have "dispatches e2
         = [Dispatch 2 ''slip:reorder''
              (Some \<lparr>spliceIndex = 2, detailOriginalIndex = 2, insertBefore = Some 3\<rparr>)]"
    using d el t' d0 by (simp add: listItem_def)
  ultimately show ?thesis using a h h' r by auto
qed

text \<open>
  C3, as the code has it. For a fixed snapshot and displacements \<open>y1 \<le> y2\<close>, the splice
  index for \<open>y1\<close> is at most the splice index for \<open>y2\<close>, provided every sibling's \<open>pos\<close> is
  a number, or the two displacements are on the same side of zero (both negative or both
  not negative). A sibling whose \<open>pos\<close> is NaN is skipped by both scans, which count from
  opposite ends.
\<close>

theorem spliceIndexOf_mono:
  assumes "y1 \<le> y2"
    and "(\<forall>sn \<in> set os. pos sn \<noteq> NaN) \<or> (y1 < 0 \<longleftrightarrow> y2 < 0)"
  shows "spliceIndexOf os y1 \<le> spliceIndexOf os y2"
proof -
  consider "y2 < 0" | "0 \<le> y1" | "y1 < 0" "0 \<le> y2" by linarith
  then show ?thesis
  proof cases
    case 1
    with assms have "y1 < 0" by simp
    with 1 show ?thesis
      using scanForward_mono [OF assms(1), of os] by (simp add: spliceIndexOf_def)
  next
    case 2
    with assms have "0 \<le> y2" by simp
    with 2 show ?thesis
      using scanBackward_mono [OF assms(1), of os] by (simp add: spliceIndexOf_def)
  next
    case 3
    with assms(2) have "\<forall>sn \<in> set os. pos sn \<noteq> NaN" by auto
    with 3 show ?thesis using scan_cross [of y1 y2 os] by (simp add: spliceIndexOf_def)
  qed
qed

theorem spliceIndexOf_mono_witness:
  "(- 60 :: real) \<le> 30
   \<and> spliceIndexOf fourSiblings (- 60) \<le> spliceIndexOf fourSiblings 30
   \<and> spliceIndexOf fourSiblings (- 60) = 1
   \<and> spliceIndexOf fourSiblings 30 = 3
   \<and> (1 :: real) \<le> 2
   \<and> spliceIndexOf [\<lparr>o_node = 0, o_baseTransform = noTransform, pos = NaN\<rparr>] 1
       \<le> spliceIndexOf [\<lparr>o_node = 0, o_baseTransform = noTransform, pos = NaN\<rparr>] 2"
proof -
  have h: "(- 60 :: real) \<le> 30" by simp
  have n: "(\<forall>sn \<in> set fourSiblings. pos sn \<noteq> NaN) \<or> ((- 60 :: real) < 0 \<longleftrightarrow> (30 :: real) < 0)"
    by (simp add: fourSiblings_def)
  have k: "(1 :: real) \<le> 2" by simp
  have m: "(\<forall>sn \<in> set [\<lparr>o_node = 0, o_baseTransform = noTransform, pos = NaN\<rparr>]. pos sn \<noteq> NaN)
           \<or> ((1 :: real) < 0 \<longleftrightarrow> (2 :: real) < 0)"
    by simp
  have "spliceIndexOf fourSiblings (- 60) = 1"
    by (simp add: spliceIndexOf_def fourSiblings_def scanForward.simps)
  moreover have "spliceIndexOf fourSiblings 30 = 3"
    by (simp add: spliceIndexOf_def fourSiblings_def scanBackward.simps)
  ultimately show ?thesis
    using h k spliceIndexOf_mono [OF h n] spliceIndexOf_mono [OF k m] by simp
qed

text \<open>
  C3 as the specification states it, for every snapshot, fails on a list whose first child
  is an element without \<open>offsetTop\<close>: its \<open>pos\<close> is NaN, the upward scan at displacement
  \<open>-1\<close> runs to the end and gives 1, the downward scan at displacement 1 runs to the start
  and gives 0.
\<close>

theorem spliceIndexOf_mono_counterexample:
  "\<exists>s e1. reorderStateInit svgEngine = Some (s, e1)
     \<and> map pos (otherNodes s) = [NaN]
     \<and> (- 1 :: real) \<le> 1
     \<and> spliceIndexOf (otherNodes s) (- 1) = 1
     \<and> spliceIndexOf (otherNodes s) 1 = 0
     \<and> \<not> spliceIndexOf (otherNodes s) (- 1) \<le> spliceIndexOf (otherNodes s) 1"
  by (simp add: reorderStateInit_def svgEngine_def svgChild_def pressedEngine_def listItem_def
                reorder_onMove_def newStateObject_def emit_def findIndex_def
                measuredHeight_def zeroPoint_def siblingPos_def spliceIndexOf_def
                scanForward.simps scanBackward.simps Let_def)

text \<open>
  C4, as the code has it. Five siblings of equal height \<open>H > 0\<close>, the dragged item at
  original index 2: the four other siblings have \<open>pos\<close> values \<open>-3H/2\<close>, \<open>-H/2\<close>, \<open>H/2\<close>,
  \<open>3H/2\<close>. Ending the drag with net vertical displacement exactly \<open>-1.5H\<close> yields splice
  index 1 and \<open>insertBefore\<close> the sibling originally at index 1, because the scan compares
  with a strict \<open>>\<close>; every displacement strictly below \<open>-1.5H\<close> yields splice index 0
  and \<open>insertBefore\<close> the sibling originally at index 0.
\<close>

theorem five_items_dragged_up:
  assumes "0 < H"
  shows "\<exists>s e1. reorderStateInit (pressedEngine H listeners) = Some (s, e1)
           \<and> map pos (otherNodes s)
               = [Number (- (3 * H / 2)), Number (- (H / 2)), Number (H / 2), Number (3 * H / 2)]
           \<and> map o_node (otherNodes s) = [0, 1, 3, 4]
           \<and> originalIndex s = 2
           \<and> reorderDetail (otherNodes s) (originalIndex s) (- 1.5 * H)
               = \<lparr>spliceIndex = 1, detailOriginalIndex = 2, insertBefore = Some 1\<rparr>
           \<and> (\<forall>y. y < - 1.5 * H \<longrightarrow>
                 reorderDetail (otherNodes s) (originalIndex s) y
                   = \<lparr>spliceIndex = 0, detailOriginalIndex = 2, insertBefore = Some 0\<rparr>)"
proof -
  let ?tg = "\<lparr>originalTarget = 2, node = listItem 2 H, scrollTop = 0,
               origScrollTop = 0, origScrollHeight = 5 * H,
               baseTransform = noTransform, height = None\<rparr>"
  let ?os = "[\<lparr>o_node = 0, o_baseTransform = noTransform, pos = Number (- (3 * H / 2))\<rparr>,
              \<lparr>o_node = 1, o_baseTransform = noTransform, pos = Number (- (H / 2))\<rparr>,
              \<lparr>o_node = 3, o_baseTransform = noTransform, pos = Number (H / 2)\<rparr>,
              \<lparr>o_node = 4, o_baseTransform = noTransform, pos = Number (3 * H / 2)\<rparr>]"
  have tg: "target (pressedEngine H listeners) = Some ?tg"
    by (simp add: pressedEngine_def)
  have cn: "childNodes (pressedEngine H listeners) = fiveItems H"
    by (simp add: pressedEngine_def)
  obtain s e1 where init: "reorderStateInit (pressedEngine H listeners) = Some (s, e1)"
      and oi: "originalIndex s = findIndex ?tg (fiveItems H)"
      and os: "otherNodes s = ?os"
    using reorderStateInit_closure [OF tg] fiveItems_snapshot [OF assms] by (auto simp: cn)
  have oi2: "originalIndex s = 2"
    by (simp add: oi findIndex_def fiveItems_def listItem_def)
  have at: "spliceIndexOf ?os (- 1.5 * H) = 1"
    using assms by (simp add: spliceIndexOf_def scanForward.simps)
  have below: "spliceIndexOf ?os y = 0" if "y < - 1.5 * H" for y
  proof -
    have "y < 0" using that assms by simp
    moreover have "scanForward ?os y 0 = 0"
      using that by (subst scanForward.simps) simp
    ultimately show ?thesis by (simp add: spliceIndexOf_def)
  qed
  show ?thesis
    using init os oi2 at below by (simp add: reorderDetail_def)
qed

theorem five_items_dragged_up_witness:
  "(0::real) < 40
   \<and> (\<exists>s e1. reorderStateInit (pressedEngine 40 (\<lambda>n ty. True)) = Some (s, e1)
        \<and> map pos (otherNodes s) = [Number (- 60), Number (- 20), Number 20, Number 60]
        \<and> reorderDetail (otherNodes s) (originalIndex s) (- 60)
            = \<lparr>spliceIndex = 1, detailOriginalIndex = 2, insertBefore = Some 1\<rparr>
        \<and> reorderDetail (otherNodes s) (originalIndex s) (- 61)
            = \<lparr>spliceIndex = 0, detailOriginalIndex = 2, insertBefore = Some 0\<rparr>)"
proof -
  have h: "(0::real) < 40" by simp
  from five_items_dragged_up [OF h, of "\<lambda>n ty. True"]
  obtain s e1 where a: "reorderStateInit (pressedEngine 40 (\<lambda>n ty. True)) = Some (s, e1)"
    and b: "map pos (otherNodes s)
              = [Number (- (3 * 40 / 2)), Number (- (40 / 2)), Number (40 / 2),
                 Number (3 * 40 / 2)]"
    and c: "reorderDetail (otherNodes s) (originalIndex s) (- 1.5 * 40)
       = \<lparr>spliceIndex = 1, detailOriginalIndex = 2, insertBefore = Some 1\<rparr>"
    and d: "\<forall>y. y < - 1.5 * 40 \<longrightarrow>
       reorderDetail (otherNodes s) (originalIndex s) y
         = \<lparr>spliceIndex = 0, detailOriginalIndex = 2, insertBefore = Some 0\<rparr>"
    by (elim exE conjE) (rule that)
  have "reorderDetail (otherNodes s) (originalIndex s) (- 61)
         = \<lparr>spliceIndex = 0, detailOriginalIndex = 2, insertBefore = Some 0\<rparr>"
    using d by simp
  with a b c show ?thesis by simp
qed

text \<open>
  C4 as the specification states it, with splice index 0 at exactly \<open>-1.5H\<close>, fails for
  \<open>H = 40\<close>: the displacement is \<open>-60\<close>, the first sibling's \<open>pos\<close> is \<open>-60\<close> and is
  not greater, so the scan stops at index 1.
\<close>

theorem five_items_dragged_up_counterexample:
  "\<exists>s e1. reorderStateInit (pressedEngine 40 (\<lambda>n ty. True)) = Some (s, e1)
     \<and> map pos (otherNodes s) = [Number (- 60), Number (- 20), Number 20, Number 60]
     \<and> originalIndex s = 2
     \<and> spliceIndex (reorderDetail (otherNodes s) (originalIndex s) (- 1.5 * 40)) \<noteq> 0
     \<and> insertBefore (reorderDetail (otherNodes s) (originalIndex s) (- 1.5 * 40)) \<noteq> Some 0"
  by (simp add: reorderStateInit_def pressedEngine_def fiveItems_def listItem_def
                reorder_onMove_def newStateObject_def emit_def findIndex_def
                measuredHeight_def zeroPoint_def siblingPos_def reorderDetail_def
                spliceIndexOf_def scanForward.simps Let_def)

text \<open>
  C5. For every snapshot of \<open>n\<close> siblings and every displacement whatsoever, the splice
  index lies in the closed interval from 0 to \<open>n\<close>.
\<close>

theorem spliceIndexOf_range:
  "0 \<le> spliceIndexOf os y \<and> spliceIndexOf os y \<le> int (length os)"
proof (cases "y < 0")
  case True
  then show ?thesis
    using scanForward_bounds [of 0 os y] by (simp add: spliceIndexOf_def)
next
  case False
  then show ?thesis
    using scanBackward_bounds [of "int (length os) - 1" os y] by (simp add: spliceIndexOf_def)
qed

theorem spliceIndexOf_range_witness:
  "0 \<le> spliceIndexOf fourSiblings (- 1000)
   \<and> spliceIndexOf fourSiblings (- 1000) \<le> int (length fourSiblings)
   \<and> 0 \<le> spliceIndexOf fourSiblings 1000
   \<and> spliceIndexOf fourSiblings 1000 \<le> int (length fourSiblings)
   \<and> spliceIndexOf fourSiblings (- 1000) = 0
   \<and> spliceIndexOf fourSiblings 1000 = 4"
proof -
  have "spliceIndexOf fourSiblings (- 1000) = 0"
    by (simp add: spliceIndexOf_def fourSiblings_def scanForward.simps)
  moreover have "spliceIndexOf fourSiblings 1000 = 4"
    by (simp add: spliceIndexOf_def fourSiblings_def scanBackward.simps)
  ultimately show ?thesis
    using spliceIndexOf_range [of fourSiblings "- 1000"] spliceIndexOf_range [of fourSiblings 1000]
    by simp
qed

text \<open>
  C6. For every transition request \<open>setState(S)\<close> that does not return at once: if, after
  the entry function of \<open>S\<close> has run, the active state is another object than just before
  it ran, the call leaves the engine as the entry function left it and commits nothing.
  This happens only for \<open>S\<close> undecided, and the active state is then the reorder state the
  inner transition committed.
\<close>

theorem setState_reentrant:
  assumes "\<not> alreadyIn c e"
    and "leavePrevious e = Some e1"
    and "stateInit c e1 = Some (nextState, e2)"
    and "\<not> sameObject (state e2) (state e1)"
  shows "setState c e = Some e2 \<and> c = Undecided \<and> alreadyIn Reorder e2"
proof -
  have run: "setState c e = Some e2"
    using assms by (simp add: setState_def setStateWith_def commitState_def)
  have c: "c = Undecided"
  proof (cases c)
    case Idle
    then have "state e2 = state e1"
      using assms(3) idleStateInit_frame [of e1] by (auto simp: stateInit_def)
    with assms(4) show ?thesis by (simp add: sameObject_def)
  next
    case Undecided
    then show ?thesis .
  next
    case Reorder
    then have "state e2 = state e1"
      using assms(3) reorderStateInit_frame [of e1] by (auto simp: stateInit_def)
    with assms(4) show ?thesis by (simp add: sameObject_def)
  qed
  then have "alreadyIn Reorder e2"
    using assms(3,4) undecidedStateInit_changes_state by (simp add: stateInit_def)
  with run c show ?thesis by simp
qed

theorem setState_reentrant_witness:
  "\<exists>nextState e2. stateInit Undecided (pressedEngine 40 vetoWait) = Some (nextState, e2)
     \<and> init nextState = Undecided
     \<and> \<not> sameObject (state e2) (state (pressedEngine 40 vetoWait))
     \<and> setState Undecided (pressedEngine 40 vetoWait) = Some e2
     \<and> alreadyIn Reorder e2"
proof -
  let ?E = "pressedEngine 40 vetoWait"
  have h1: "\<not> alreadyIn Undecided ?E"
    by (simp add: alreadyIn_def pressedEngine_fields idleObject_def)
  have nr: "\<not> alreadyIn Reorder ?E"
    by (simp add: alreadyIn_def pressedEngine_fields idleObject_def)
  have h2: "leavePrevious ?E = Some ?E"
    by (simp add: leavePrevious_def leaveState_def pressedEngine_fields idleObject_def)
  have bw: "\<not> dispatchEvent ?E 2 ''slip:beforewait''"
    and br: "dispatchEvent ?E 2 ''slip:beforereorder''"
    by (simp_all add: pressedEngine_fields vetoWait_def)
  obtain nextState e2 where i: "undecidedStateInit ?E = Some (nextState, e2)"
      and k: "init nextState = Undecided"
      and c: "\<exists>c. state e2 = Some c \<and> fresh ?E \<le> obj c"
    using undecidedStateInit_vetoed_wait [OF pressedEngine_fields(1) [of 40 vetoWait]] bw br nr
    by auto
  have h3: "stateInit Undecided ?E = Some (nextState, e2)"
    using i by (simp add: stateInit_def)
  have h4: "\<not> sameObject (state e2) (state ?E)"
    using c by (auto simp: sameObject_def pressedEngine_fields idleObject_def)
  show ?thesis
    using setState_reentrant [OF h1 h2 h3 h4] h3 h4 k by blast
qed

text \<open>
  C7, as the code has it. In the undecided state, for every move event of an active
  gesture: if the absolute vertical movement exceeds 20px the engine transitions to idle,
  releasing the session and clearing the hold timer, so that reorder is not entered for
  this gesture (idle has no move or end handler, later moves change nothing and the hold
  timer no longer fires); otherwise state, session, timers and effects are unchanged. If
  the absolute horizontal movement exceeds 1.2 times the absolute vertical movement the
  handler returns false and \<open>updatePosition\<close> calls \<open>preventDefault\<close> on the event, and
  otherwise it does not. Both tests are made on every move. No event is dispatched.
\<close>

theorem undecided_move:
  assumes st: "state e = Some s" "init s = Undecided" "ctor s = Some Undecided"
    and pp: "previousPosition e = Some q"
    and mv: "getAbsoluteMovement (e\<lparr>latestPosition := Some p\<rparr>) = Some move"
  shows "\<exists>e'. updatePosition p e = Some (a_x move > a_y move * 1.2, e')
           \<and> dispatches e' = dispatches e
           \<and> (a_y move > 20 \<longrightarrow>
                (\<exists>c. state e' = Some c \<and> init c = Idle \<and> ctor c = Some Idle
                   \<and> onMove c = None \<and> onEnd c = None)
                \<and> target e' = None
                \<and> timers e' = filter (\<lambda>t. Some (timer_id t) \<noteq> holdTimer s) (timers e)
                \<and> (\<forall>p'. updatePosition p' e' = Some (False, e'))
                \<and> (\<forall>t. holdTimer s = Some t \<longrightarrow> fireTimer t e' = Some e'))
           \<and> (\<not> a_y move > 20 \<longrightarrow>
                state e' = state e \<and> target e' = target e \<and> timers e' = timers e
                \<and> effects e' = effects e)"
proof -
  let ?e1 = "e\<lparr>latestPosition := Some p\<rparr>"
  let ?r = "a_x move > a_y move * 1.2"
  have tg: "target e \<noteq> None"
    using mv by (auto simp: getAbsoluteMovement_def getTotalMovement_def split: option.splits)
  have st1: "state ?e1 = Some s" using st by simp
  show ?thesis
  proof (cases "a_y move > 20")
    case True
    obtain e2 c where e2: "setState Idle ?e1 = Some e2"
        and c: "state e2 = Some c" "init c = Idle" "ctor c = Some Idle"
        and t2: "target e2 = None"
        and tm: "timers e2 = filter (\<lambda>t. Some (timer_id t) \<noteq> holdTimer s) (timers ?e1)"
        and ps: "latestPosition e2 = latestPosition ?e1"
                "previousPosition e2 = previousPosition ?e1"
        and d2: "dispatches e2 = dispatches ?e1"
      using setState_Idle_from_undecided [OF st1 st(2,3)] by blast
    have om: "undecided_onMove ?e1 = Some (if ?r then Some False else None, e2)"
      using mv True e2 by (simp add: undecided_onMove_def)
    define e' where "e' = (if p_time p - p_time q > 100
                           then e2\<lparr>previousPosition := latestPosition e2\<rparr> else e2)"
    have run: "updatePosition p e = Some (?r, e')"
      using tg st om ps pp by (auto simp: updatePosition_def onMove_def e'_def Let_def)
    have f: "state e' = Some c" "target e' = None" "timers e' = timers e2"
        "dispatches e' = dispatches e2"
      using c t2 by (simp_all add: e'_def dispatches_def)
    have inert: "updatePosition p' e' = Some (False, e')" for p'
      using f(2) by (simp add: updatePosition_def)
    have quiet: "fireTimer t e' = Some e'" if "holdTimer s = Some t" for t
      using cleared_timer_does_not_fire [of e' t "timers e"] f(3) tm that by simp
    have h: "onMove c = None" "onEnd c = None"
      using c by (simp_all add: onMove_def onEnd_def)
    have "dispatches e' = dispatches e" using f(4) d2 by (simp add: dispatches_def)
    with run True f c h tm inert quiet show ?thesis by auto
  next
    case False
    have om: "undecided_onMove ?e1 = Some (if ?r then Some False else None, ?e1)"
      using mv False by (simp add: undecided_onMove_def)
    show ?thesis
      using tg st om pp False
      by (auto simp: updatePosition_def onMove_def dispatches_def Let_def)
  qed
qed

theorem undecided_move_witness:
  "\<exists>e'. updatePosition \<lparr>p_x = 3, p_y = 30, p_time = 50\<rparr> waitingEngine = Some (False, e')
     \<and> alreadyIn Idle e' \<and> target e' = None \<and> timers e' = []
     \<and> fireTimer 1 e' = Some e'"
proof -
  have mv: "getAbsoluteMovement (waitingEngine\<lparr>latestPosition := Some \<lparr>p_x = 3, p_y = 30, p_time = 50\<rparr>\<rparr>)
            = Some \<lparr>a_x = 3, a_y = 30, a_time = 50, directionX = ''right'', directionY = ''down''\<rparr>"
    by (simp add: getAbsoluteMovement_def getTotalMovement_def waitingEngine_def pressedEngine_def)
  have st: "state waitingEngine = Some \<lparr>obj = 2, init = Undecided, ctor = Some Undecided,
                        allowTextSelection = False, holdTimer = Some 1, otherNodes = [],
                        originalIndex = 0, mouseOutsideTimer = None\<rparr>"
    by (simp add: waitingEngine_def)
  have pp: "previousPosition waitingEngine = Some \<lparr>p_x = 0, p_y = 0, p_time = 0\<rparr>"
    by (simp add: waitingEngine_def pressedEngine_def)
  have tm: "timers waitingEngine = [\<lparr>timer_id = 1, callback = HoldTimer, delay = 300\<rparr>]"
    by (simp add: waitingEngine_def)
  show ?thesis
    using undecided_move [OF st _ _ pp mv] tm by (auto simp: alreadyIn_def)
qed

text \<open>
  C7 as the specification states it fails twice on the waiting engine. A move of 10px to
  the right has the default prevented, with the state unchanged; a move of 100px to the
  right and 30px down has the default prevented and the state changed to idle.
\<close>

theorem undecided_move_counterexample:
  "(\<exists>e'. updatePosition \<lparr>p_x = 10, p_y = 0, p_time = 50\<rparr> waitingEngine = Some (True, e')
      \<and> state e' = state waitingEngine)
   \<and> (\<exists>e'. updatePosition \<lparr>p_x = 100, p_y = 30, p_time = 50\<rparr> waitingEngine = Some (True, e')
      \<and> state e' \<noteq> state waitingEngine \<and> alreadyIn Idle e')"
  by (simp add: updatePosition_def onMove_def undecided_onMove_def getAbsoluteMovement_def
        getTotalMovement_def waitingEngine_def pressedEngine_def
        setState_def setStateWith_def alreadyIn_def leavePrevious_def leaveState_def
        clearTimeout_def commitState_def stateInit_def idleStateInit_def
        removeMouseHandlers_def newStateObject_def emit_def sameObject_def listItem_def Let_def)




text \<open>
  C9. For every engine state, calling \<open>cancel()\<close> twice in succession is the same as
  calling it once: after a first call the engine is in idle, and the second call returns
  at once with the engine unchanged, so it runs neither the entry function of idle nor any
  \<open>leaveState\<close> handler and adds no effect. A call fails only in a reorder state object with
  no session, where \<open>leaveState\<close> has no target to restore.
\<close>

theorem cancel_idempotent:
  "Option.bind (cancel e) cancel = cancel e
   \<and> (\<forall>e1. cancel e = Some e1 \<longrightarrow> alreadyIn Idle e1 \<and> cancel e1 = Some e1)
   \<and> ((\<forall>s. state e = Some s \<and> init s = Reorder \<longrightarrow> target e \<noteq> None) \<longrightarrow> cancel e \<noteq> None)"
proof -
  have again: "alreadyIn Idle e1 \<and> cancel e1 = Some e1" if "cancel e = Some e1" for e1
    using cancel_lands_in_idle [OF that] by (simp add: cancel_def setState_def setStateWith_def)
  have "Option.bind (cancel e) cancel = cancel e"
    using again by (cases "cancel e") simp_all
  moreover have "cancel e \<noteq> None"
    if ok: "\<forall>s. state e = Some s \<and> init s = Reorder \<longrightarrow> target e \<noteq> None"
  proof (cases "alreadyIn Idle e")
    case True
    then show ?thesis by (simp add: cancel_def setState_def setStateWith_def)
  next
    case False
    obtain e1 where l: "leavePrevious e = Some e1"
      using ok leaveState_ok by (cases "state e") (auto simp: leavePrevious_def)
    obtain e2 where "commitState idleStateInit Idle e1 = Some e2"
      using commit_idle [of e1] by blast
    with False l show ?thesis
      by (simp add: cancel_def setState_def setStateWith_def stateInit_def)
  qed
  ultimately show ?thesis using again by blast
qed

theorem cancel_idempotent_witness:
  "\<exists>e1. cancel waitingEngine = Some e1
     \<and> alreadyIn Idle e1
     \<and> timers e1 = []
     \<and> effects e1 = effects waitingEngine @ [StyleSet 2 ''willChange'' (Some [])]
     \<and> cancel e1 = Some e1
     \<and> Option.bind (cancel waitingEngine) cancel = cancel waitingEngine"
proof -
  have "\<exists>e1. cancel waitingEngine = Some e1 \<and> timers e1 = []
          \<and> effects e1 = effects waitingEngine @ [StyleSet 2 ''willChange'' (Some [])]"
    by (simp add: cancel_def setState_def setStateWith_def alreadyIn_def leavePrevious_def
          leaveState_def clearTimeout_def commitState_def stateInit_def idleStateInit_def
          removeMouseHandlers_def newStateObject_def emit_def sameObject_def
          waitingEngine_def pressedEngine_def listItem_def Let_def)
  then obtain e1 where r: "cancel waitingEngine = Some e1" "timers e1 = []"
      "effects e1 = effects waitingEngine @ [StyleSet 2 ''willChange'' (Some [])]"
    by blast
  then show ?thesis using cancel_idempotent [of waitingEngine] by simp
qed

text \<open>
  C10. For every move event processed while no gesture session is active (the target is
  null), \<open>updatePosition\<close> returns at once: the active state and the three position
  samples are unchanged, no handler runs, nothing is dispatched, \<open>preventDefault\<close> is not
  called and no exception is raised. The engine as a whole is unchanged.
\<close>

theorem updatePosition_without_target:
  assumes "target e = None"
  shows "updatePosition p e = Some (False, e)"
  using assms by (simp add: updatePosition_def)

theorem updatePosition_without_target_witness:
  "target releasedEngine = None
   \<and> updatePosition \<lparr>p_x = 5, p_y = 90, p_time = 1000\<rparr> releasedEngine
       = Some (False, releasedEngine)"
proof -
  have h: "target releasedEngine = None" by (simp add: releasedEngine_def)
  show ?thesis
    using h updatePosition_without_target [OF h, of "\<lparr>p_x = 5, p_y = 90, p_time = 1000\<rparr>"]
    by simp
qed

end
